theory Spec2Isabelle
  imports Complex_Main "HOL-Library.AList" "HOL-Library.Sublist"
begin

section \<open>Data model and plan operations (models.py)\<close>

text \<open>
  Python dictionaries keep their keys in insertion order, and the code iterates over
  them, so a dictionary is an association list with the keys in insertion order.
  Reading a key is \<^const>\<open>map_of\<close>; the assignment \<^verbatim>\<open>d[k] = v\<close> is
  \<^const>\<open>AList.update\<close>: it replaces the value in place when the key is present and
  appends the pair otherwise.

  Credits are Python floats in the source; the data model calls them rational numbers,
  and they are rationals here, so sums are exact. \<^verbatim>\<open>datetime.now()\<close> is a
  parameter of the operations that read the clock.
\<close>

type_synonym ('k, 'v) dict = "('k \<times> 'v) list"

type_synonym datetime = nat

record Requirement =
  id_req :: string
  label :: string
  min_credits :: rat
  satisfied_by :: "string set"

record Course =
  id_course :: string
  code :: string
  title :: string
  faculty :: string
  credits :: rat
  days :: string
  time :: string
  semester :: string
  delivery_mode :: string
  description :: string
  satisfies :: "string set"

record Plan =
  selections :: "(string, string list) dict"
  notes_plan :: string
  created_at :: datetime
  updated_at :: datetime

text \<open>\<^verbatim>\<open>Plan()\<close>: both timestamps default to the current time.\<close>

definition new_Plan :: "datetime \<Rightarrow> Plan" where
  "new_Plan now = \<lparr>selections = [], notes_plan = [], created_at = now, updated_at = now\<rparr>"

text \<open>
  \<^verbatim>\<open>Plan.add_course\<close>: create the semester's list when the semester is new, then
  append the id and stamp the plan unless the id is already in the list.
\<close>

definition add_course :: "datetime \<Rightarrow> string \<Rightarrow> string \<Rightarrow> Plan \<Rightarrow> Plan" where
  "add_course now sem cid p =
     (let sel = (if map_of (selections p) sem = None
                 then AList.update sem [] (selections p) else selections p)
      in case map_of sel sem of
           None \<Rightarrow> p\<lparr>selections := sel\<rparr>
         | Some ids \<Rightarrow>
             if cid \<notin> set ids
             then p\<lparr>selections := AList.update sem (ids @ [cid]) sel, updated_at := now\<rparr>
             else p\<lparr>selections := sel\<rparr>)"

text \<open>
  \<^verbatim>\<open>Plan.remove_course\<close>: \<^verbatim>\<open>list.remove\<close> deletes the first occurrence, which is
  \<^const>\<open>remove1\<close>; the semester keeps its (possibly empty) list.
\<close>

definition remove_course :: "datetime \<Rightarrow> string \<Rightarrow> string \<Rightarrow> Plan \<Rightarrow> Plan" where
  "remove_course now sem cid p =
     (case map_of (selections p) sem of
        None \<Rightarrow> p
      | Some ids \<Rightarrow>
          if cid \<in> set ids
          then p\<lparr>selections := AList.update sem (remove1 cid ids) (selections p),
                 updated_at := now\<rparr>
          else p)"

text \<open>\<^verbatim>\<open>Plan.get_courses_for_semester\<close>: \<^verbatim>\<open>self.selections.get(semester, [])\<close>.\<close>

definition get_courses_for_semester :: "Plan \<Rightarrow> string \<Rightarrow> string list" where
  "get_courses_for_semester p sem =
     (case map_of (selections p) sem of None \<Rightarrow> [] | Some ids \<Rightarrow> ids)"

section \<open>Requirement validation (utils.py)\<close>

text \<open>
  \<^verbatim>\<open>{course.id: course for course in courses}\<close>: a later course with an id already
  seen replaces the earlier one under that key.
\<close>

definition course_lookup :: "Course list \<Rightarrow> (string, Course) dict" where
  "course_lookup courses = fold (\<lambda>course d. AList.update (id_course course) course d) courses []"

text \<open>
  The status text of a result is \<^verbatim>\<open>'Met'\<close> or \<^verbatim>\<open>'Need {deficit:.1f} more credits'\<close>
  behind a pictograph; it is kept as the case and the number it is printed from.
\<close>

datatype status_text = Met | Need_more_credits rat

record ValidationResult =
  requirement :: Requirement
  selected_courses :: "Course list"
  total_credits :: rat
  min_credits_result :: rat
  is_met :: bool
  deficit :: rat
  status :: status_text

text \<open>
  The two inner loops of \<^verbatim>\<open>validate_requirements\<close>: over the ids of one semester, and
  over the items of \<^verbatim>\<open>plan.selections\<close>, threading \<^verbatim>\<open>selected_courses\<close> and
  \<^verbatim>\<open>total_credits\<close>. (The source also builds a \<^verbatim>\<open>requirement_lookup\<close>
  dictionary, which it never reads.)
\<close>

definition scan_course_ids ::
  "(string, Course) dict \<Rightarrow> string \<Rightarrow> string list \<Rightarrow> Course list \<times> rat \<Rightarrow> Course list \<times> rat" where
  "scan_course_ids lookup rid course_ids acc =
     fold (\<lambda>cid (sel, tot).
             case map_of lookup cid of
               None \<Rightarrow> (sel, tot)
             | Some course \<Rightarrow>
                 if rid \<in> satisfies course then (sel @ [course], tot + credits course)
                 else (sel, tot))
          course_ids acc"

definition scan_selections ::
  "(string, Course) dict \<Rightarrow> string \<Rightarrow> (string, string list) dict \<Rightarrow> Course list \<times> rat" where
  "scan_selections lookup rid sels =
     fold (\<lambda>(sem, course_ids) acc. scan_course_ids lookup rid course_ids acc) sels ([], 0)"

definition validate_requirement :: "(string, Course) dict \<Rightarrow> Plan \<Rightarrow> Requirement \<Rightarrow> ValidationResult" where
  "validate_requirement lookup plan r =
     (let (sel, tot) = scan_selections lookup (id_req r) (selections plan);
          met = (tot \<ge> min_credits r);
          d = max 0 (min_credits r - tot)
      in \<lparr>requirement = r, selected_courses = sel, total_credits = tot,
          min_credits_result = min_credits r, is_met = met, deficit = d,
          status = (if met then Met else Need_more_credits d)\<rparr>)"

definition validate_requirements ::
  "Plan \<Rightarrow> Course list \<Rightarrow> Requirement list \<Rightarrow> (string, ValidationResult) dict" where
  "validate_requirements plan courses requirements =
     fold (\<lambda>r results. AList.update (id_req r) (validate_requirement (course_lookup courses) plan r) results)
          requirements []"

text \<open>
  \<^verbatim>\<open>calculate_total_credits\<close>: \<^verbatim>\<open>if semester:\<close> is false for \<^verbatim>\<open>None\<close> and for the
  empty string, and then the ids of all semesters are collected in order.
\<close>

definition calculate_total_credits :: "Plan \<Rightarrow> Course list \<Rightarrow> string option \<Rightarrow> rat" where
  "calculate_total_credits plan courses sem =
     (let lookup = course_lookup courses;
          all_ids = fold (\<lambda>semester_courses ids. ids @ semester_courses) (map snd (selections plan)) [];
          course_ids = (case sem of
                          None \<Rightarrow> all_ids
                        | Some s \<Rightarrow> if s \<noteq> [] then get_courses_for_semester plan s else all_ids)
      in fold (\<lambda>cid tot. case map_of lookup cid of
                               None \<Rightarrow> tot
                             | Some course \<Rightarrow> tot + credits course)
              course_ids 0)"

record Progress =
  total_requirements :: nat
  met_requirements :: nat
  progress_percentage :: rat
  validation_results :: "(string, ValidationResult) dict"

definition get_requirement_progress :: "Plan \<Rightarrow> Course list \<Rightarrow> Requirement list \<Rightarrow> Progress" where
  "get_requirement_progress plan courses requirements =
     (let validation = validate_requirements plan courses requirements;
          tot = length requirements;
          met = length (filter is_met (map snd validation))
      in \<lparr>total_requirements = tot, met_requirements = met,
          progress_percentage = (if tot > 0 then of_nat met / of_nat tot * 100 else 0),
          validation_results = validation\<rparr>)"

section \<open>Keyword tagger (parsers.py)\<close>

text \<open>
  Strings are ASCII text: \<^verbatim>\<open>str.upper\<close> and \<^verbatim>\<open>str.lower\<close> change the 26 letters
  and leave every other character as it is. \<^verbatim>\<open>k in s\<close> on strings is
  \<^const>\<open>sublist\<close>.
\<close>

definition upper_char :: "char \<Rightarrow> char" where
  "upper_char c = (let n = (of_char c :: nat) in if 97 \<le> n \<and> n \<le> 122 then char_of (n - 32) else c)"

definition lower_char :: "char \<Rightarrow> char" where
  "lower_char c = (let n = (of_char c :: nat) in if 65 \<le> n \<and> n \<le> 90 then char_of (n + 32) else c)"

definition upper :: "string \<Rightarrow> string" where
  "upper s = map upper_char s"

definition lower :: "string \<Rightarrow> string" where
  "lower s = map lower_char s"

text \<open>The local table \<^verbatim>\<open>mapping\<close> of \<^verbatim>\<open>link_courses_to_requirements\<close>.\<close>

definition keyword_mapping :: "(string, string list) dict" where
  "keyword_mapping =
     [(''bible'', [''BIBL'', ''BIBLE'', ''SCRIPTURE'']),
      (''historical'', [''HIST'', ''HISTORY'', ''CHURCH'']),
      (''interreligious'', [''INTER'', ''RELIGION'', ''DIVERSITY'']),
      (''practical'', [''PRAC'', ''MINISTRY'', ''PASTORAL'']),
      (''theology_ethics'', [''THEO'', ''ETHICS'', ''MORAL'']),
      (''field_ed'', [''FIELD'', ''INTERN'', ''PRACTICUM'']),
      (''mssw_core'', [''MSSW'', ''SOCIAL'']),
      (''integrative_seminar'', [''SEMINAR'', ''INTEGRATIVE'']),
      (''social_work_practice'', [''PRACTICE'', ''CLINICAL'']),
      (''social_work_research'', [''RESEARCH'', ''METHODS'']),
      (''social_work_policy'', [''POLICY'', ''ADVOCACY''])]"

definition course_text :: "Course \<Rightarrow> string" where
  "course_text course = upper (code course @ '' '' @ title course)"

text \<open>\<^verbatim>\<open>any(keyword in course_text for keyword in keywords)\<close>\<close>

definition any_keyword :: "string list \<Rightarrow> string \<Rightarrow> bool" where
  "any_keyword kws text = list_ex (\<lambda>keyword. sublist keyword text) kws"

text \<open>
  The innermost loop: the first requirement of the list whose id is \<open>req_id\<close> gets the
  course id, and the loop breaks.
\<close>

fun add_satisfied_by :: "string \<Rightarrow> string \<Rightarrow> Requirement list \<Rightarrow> Requirement list" where
  "add_satisfied_by rid cid [] = []"
| "add_satisfied_by rid cid (req # reqs) =
     (if id_req req = rid then req\<lparr>satisfied_by := insert cid (satisfied_by req)\<rparr> # reqs
      else req # add_satisfied_by rid cid reqs)"

text \<open>
  The loop over the table for one course. Every course and requirement owns its set
  (the dataclass default builds a fresh one per object), so the in-place updates of the
  source are updates of the list elements here.
\<close>

definition link_course :: "Course \<Rightarrow> Requirement list \<Rightarrow> Course \<times> Requirement list" where
  "link_course course requirements =
     fold (\<lambda>(rid, kws) (c, reqs).
             if any_keyword kws (course_text course)
             then (c\<lparr>satisfies := insert rid (satisfies c)\<rparr>, add_satisfied_by rid (id_course c) reqs)
             else (c, reqs))
          keyword_mapping (course, requirements)"

fun link_courses_to_requirements ::
  "Course list \<Rightarrow> Requirement list \<Rightarrow> Course list \<times> Requirement list" where
  "link_courses_to_requirements [] requirements = ([], requirements)"
| "link_courses_to_requirements (course # courses) requirements =
     (let (course', requirements') = link_course course requirements;
          (courses', requirements'') = link_courses_to_requirements courses requirements'
      in (course' # courses', requirements''))"

section \<open>Table-driven catalogue parser (scripts/parsers.py)\<close>

subsection \<open>Strings and paths\<close>

text \<open>
  The whitespace of \<^verbatim>\<open>str.strip\<close>, \<^verbatim>\<open>str.split\<close> and the pattern \<^verbatim>\<open>\s\<close> within
  ASCII: tab, line feed, vertical tab, form feed, carriage return, the four separators
  28 to 31, and the space.
\<close>

definition isspace :: "char \<Rightarrow> bool" where
  "isspace c = (let n = (of_char c :: nat) in (9 \<le> n \<and> n \<le> 13) \<or> (28 \<le> n \<and> n \<le> 32))"

definition rstrip :: "string \<Rightarrow> string" where
  "rstrip s = rev (dropWhile isspace (rev s))"

definition strip :: "string \<Rightarrow> string" where
  "strip s = dropWhile isspace (rstrip s)"

text \<open>\<^verbatim>\<open>sep.join(parts)\<close>\<close>

fun join :: "string \<Rightarrow> string list \<Rightarrow> string" where
  "join sep [] = []"
| "join sep [x] = x"
| "join sep (x # y # ys) = x @ sep @ join sep (y # ys)"

text \<open>\<^verbatim>\<open>re.split(r"\s", s)[0]\<close>: the text before the first whitespace character.\<close>

definition first_token :: "string \<Rightarrow> string" where
  "first_token s = takeWhile (\<lambda>c. \<not> isspace c) s"

text \<open>\<^verbatim>\<open>text.split("\n")\<close>\<close>

fun split_lines :: "string \<Rightarrow> string list" where
  "split_lines [] = [[]]"
| "split_lines (c # cs) =
     (if c = CHR 0x0A then [] # split_lines cs
      else (case split_lines cs of [] \<Rightarrow> [[c]] | l # ls \<Rightarrow> (c # l) # ls))"

text \<open>
  \<^verbatim>\<open>re.split(r"\s{2,}", line)\<close>: the line is cut at every maximal run of two or more
  whitespace characters; a single whitespace character stays inside its fragment.
  \<open>cur\<close> is the fragment being read.
\<close>

function split_runs :: "string \<Rightarrow> string \<Rightarrow> string list" where
  "split_runs cur [] = [cur]"
| "split_runs cur (c # cs) =
     (if isspace c
      then (let run = takeWhile isspace (c # cs); rest = dropWhile isspace (c # cs)
            in if 2 \<le> length run then cur # split_runs [] rest
               else split_runs (cur @ run) rest)
      else split_runs (cur @ [c]) cs)"
  by pat_completeness auto

termination
proof (relation "measure (\<lambda>(cur, s). length s)")
  show "wf (measure (\<lambda>(cur, s). length s))" by simp
next
  fix cur :: string and c cs run rest
  assume "isspace c" and "rest = dropWhile isspace (c # cs)"
  then have "length rest \<le> length cs"
    by (simp add: length_dropWhile_le)
  then show "(([], rest), cur, c # cs) \<in> measure (\<lambda>(cur, s). length s)" by simp
next
  fix cur :: string and c cs run rest
  assume "isspace c" and "rest = dropWhile isspace (c # cs)"
  then have "length rest \<le> length cs"
    by (simp add: length_dropWhile_le)
  then show "((cur @ run, rest), cur, c # cs) \<in> measure (\<lambda>(cur, s). length s)" by simp
next
  fix cur :: string and c cs
  show "((cur @ [c], cs), cur, c # cs) \<in> measure (\<lambda>(cur, s). length s)" by simp
qed

text \<open>\<^verbatim>\<open>os.path.basename\<close> and \<^verbatim>\<open>os.path.join\<close> of two components, on POSIX paths.\<close>

definition basename :: "string \<Rightarrow> string" where
  "basename p = rev (takeWhile (\<lambda>c. c \<noteq> CHR ''/'') (rev p))"

definition path_join :: "string \<Rightarrow> string \<Rightarrow> string" where
  "path_join a b =
     (if b \<noteq> [] \<and> hd b = CHR ''/'' then b
      else if a = [] \<or> last a = CHR ''/'' then a @ b
      else a @ ''/'' @ b)"

subsection \<open>Errors and the outside world\<close>

text \<open>
  The exceptions the module raises or lets through. \<open>ReaderError\<close> stands for
  whatever the PDF reader, the RTF converter or the file system raise.
\<close>

datatype error =
    FileNotFoundError string
  | ValueError string
  | RuntimeError string
  | KeyError string
  | IndexError
  | ReaderError string

text \<open>
  What the module reads from outside: the configured \<^verbatim>\<open>DATA_DIR\<close>, the file system
  (\<^verbatim>\<open>os.path.exists\<close>, \<^verbatim>\<open>os.listdir\<close>, reading a file), the tables of a PDF as the
  raw rows \<^verbatim>\<open>_table_rows_from_pdf\<close> gets to see before the reader fails, if it does
  (a cell is a string or \<^verbatim>\<open>None\<close>), the page texts of a PDF (a text or \<^verbatim>\<open>None\<close> per
  page), whether the optional RTF converter was imported, and the converter.
\<close>

record env =
  DATA_DIR :: string
  path_exists :: "string \<Rightarrow> bool"
  listdir :: "string \<Rightarrow> error + string list"
  pdf_table_rows :: "string \<Rightarrow> string option list list"
  pdf_page_texts :: "string \<Rightarrow> error + string option list"
  rtf_available :: bool
  read_text :: "string \<Rightarrow> error + string"
  rtf_to_text :: "string \<Rightarrow> error + string"

subsection \<open>Row extraction\<close>

definition table_rows_from_pdf :: "env \<Rightarrow> string \<Rightarrow> string list list" where
  "table_rows_from_pdf e path =
     map (map (\<lambda>cell. case cell of None \<Rightarrow> [] | Some t \<Rightarrow> strip t))
       (filter (\<lambda>r. list_ex (\<lambda>cell. case cell of None \<Rightarrow> False | Some t \<Rightarrow> strip t \<noteq> []) r)
          (pdf_table_rows e path))"

definition fallback_rows_from_text :: "string \<Rightarrow> string list list" where
  "fallback_rows_from_text text =
     filter (\<lambda>parts. parts \<noteq> [])
       (map (\<lambda>raw_line. map strip (filter (\<lambda>p. strip p \<noteq> []) (split_runs [] (rstrip raw_line))))
          (split_lines text))"

text \<open>The path a caller's path is resolved to: its basename inside \<^verbatim>\<open>DATA_DIR\<close>.\<close>

definition resolve :: "env \<Rightarrow> string \<Rightarrow> string" where
  "resolve e path = path_join (DATA_DIR e) (basename path)"

definition extract_rows :: "env \<Rightarrow> string \<Rightarrow> error + string list list" where
  "extract_rows e path0 =
     (let path = resolve e path0 in
      if \<not> path_exists e path then Inl (FileNotFoundError path)
      else if suffix ''.pdf'' (lower path) then
        (let rows = table_rows_from_pdf e path in
         if rows \<noteq> [] then Inr rows
         else case pdf_page_texts e path of
                Inl err \<Rightarrow> Inl err
              | Inr pages \<Rightarrow>
                  Inr (fallback_rows_from_text
                         (join [CHR 0x0A] (map (\<lambda>t. case t of None \<Rightarrow> [] | Some x \<Rightarrow> x) pages))))
      else if suffix ''.rtf'' (lower path) then
        (if \<not> rtf_available e then Inl (RuntimeError ''striprtf is required for RTF parsing'')
         else case read_text e path of
                Inl err \<Rightarrow> Inl err
              | Inr raw \<Rightarrow>
                  (case rtf_to_text e raw of
                     Inl err \<Rightarrow> Inl err
                   | Inr text \<Rightarrow> Inr (fallback_rows_from_text text)))
      else Inl (ValueError (''Unsupported file format: '' @ path)))"

subsection \<open>Header row and column index\<close>

definition HEADER_KEYWORDS :: "(string, string) dict" where
  "HEADER_KEYWORDS =
     [(''course code'', ''Course Code''),
      (''course title'', ''Course Title''),
      (''credits'', ''Credits''),
      (''instructor'', ''Instructor''),
      (''days'', ''Days/Times''),
      (''days/times'', ''Days/Times''),
      (''description'', ''Description'')]"

definition is_header_row :: "string list \<Rightarrow> bool" where
  "is_header_row row =
     (let row_join = join '' '' (map lower row)
      in sublist ''course'' row_join \<and> sublist ''code'' row_join)"

fun find_header_row_from :: "nat \<Rightarrow> string list list \<Rightarrow> error + nat" where
  "find_header_row_from i [] = Inl (RuntimeError ''Header row with Course Code not found.'')"
| "find_header_row_from i (row # rows) =
     (if is_header_row row then Inr i else find_header_row_from (Suc i) rows)"

definition find_header_row :: "string list list \<Rightarrow> error + nat" where
  "find_header_row rows = find_header_row_from 0 rows"

text \<open>
  The inner loop of \<^verbatim>\<open>_build_col_index\<close> for one header cell: the canonical name of
  the first keyword of the table, in the table's order, that occurs in the stripped,
  lower-cased cell.
\<close>

definition cell_canonical :: "string \<Rightarrow> string option" where
  "cell_canonical cell =
     (let cell_clean = lower (strip cell)
      in map_option snd (find (\<lambda>(key, canonical). sublist key cell_clean) HEADER_KEYWORDS))"

definition build_mapping :: "string list \<Rightarrow> (string, nat) dict" where
  "build_mapping header_row =
     fold (\<lambda>(idx, cell) mapping.
             case cell_canonical cell of
               None \<Rightarrow> mapping
             | Some canonical \<Rightarrow> AList.update canonical idx mapping)
          (enumerate 0 header_row) []"

definition build_col_index :: "string list \<Rightarrow> error + (string, nat) dict" where
  "build_col_index header_row =
     (let mapping = build_mapping header_row
      in case find (\<lambda>req. map_of mapping req = None) [''Course Code'', ''Course Title'', ''Credits''] of
           Some req \<Rightarrow> Inl (RuntimeError (''Required column missing from header: '' @ req))
         | None \<Rightarrow> Inr mapping)"

subsection \<open>Rows to courses\<close>

text \<open>
  \<^verbatim>\<open>float(s)\<close> on decimal numerals: surrounding whitespace, a sign, digits with an
  optional fraction (or a fraction alone), and an optional exponent; anything else is
  \<^verbatim>\<open>ValueError\<close>, here \<open>None\<close>. The value is the exact rational. The spellings
  \<^verbatim>\<open>inf\<close> and \<^verbatim>\<open>nan\<close> and underscores between digits, which \<^verbatim>\<open>float\<close> also
  accepts, are not covered.
\<close>

definition is_digit :: "char \<Rightarrow> bool" where
  "is_digit c = (let n = (of_char c :: nat) in 48 \<le> n \<and> n \<le> 57)"

definition digits_value :: "string \<Rightarrow> nat" where
  "digits_value ds = foldl (\<lambda>n c. 10 * n + (of_char c - 48)) 0 ds"

definition parse_mantissa :: "string \<Rightarrow> rat option" where
  "parse_mantissa s =
     (let ip = takeWhile is_digit s; rest = dropWhile is_digit s
      in case rest of
           [] \<Rightarrow> if ip = [] then None else Some (of_nat (digits_value ip))
         | c # fp \<Rightarrow>
             if c = CHR ''.'' \<and> list_all is_digit fp \<and> (ip \<noteq> [] \<or> fp \<noteq> [])
             then Some (of_nat (digits_value ip) + of_nat (digits_value fp) / 10 ^ length fp)
             else None)"

definition parse_exponent :: "string \<Rightarrow> int option" where
  "parse_exponent s =
     (case s of
        [] \<Rightarrow> None
      | c # cs \<Rightarrow>
          (let ds = (if c = CHR ''-'' \<or> c = CHR ''+'' then cs else s)
           in if ds \<noteq> [] \<and> list_all is_digit ds
              then Some (if c = CHR ''-'' then - int (digits_value ds) else int (digits_value ds))
              else None))"

definition parse_unsigned :: "string \<Rightarrow> rat option" where
  "parse_unsigned s =
     (let m = takeWhile (\<lambda>c. c \<noteq> CHR ''e'' \<and> c \<noteq> CHR ''E'') s;
          r = dropWhile (\<lambda>c. c \<noteq> CHR ''e'' \<and> c \<noteq> CHR ''E'') s
      in case r of
           [] \<Rightarrow> parse_mantissa m
         | _ # ex \<Rightarrow>
             (case (parse_mantissa m, parse_exponent ex) of
                (Some q, Some n) \<Rightarrow> Some (if 0 \<le> n then q * 10 ^ nat n else q / 10 ^ nat (- n))
              | _ \<Rightarrow> None))"

definition py_float :: "string \<Rightarrow> rat option" where
  "py_float s =
     (case strip s of
        [] \<Rightarrow> None
      | c # cs \<Rightarrow>
          if c = CHR ''-'' then map_option uminus (parse_unsigned cs)
          else if c = CHR ''+'' then parse_unsigned cs
          else parse_unsigned (c # cs))"

text \<open>
  The course dictionary of the scraper, with the key names suffixed: \<^verbatim>\<open>code\<close>,
  \<^verbatim>\<open>title\<close>, \<^verbatim>\<open>credits\<close>, \<^verbatim>\<open>professor\<close>, \<^verbatim>\<open>schedule\<close>, \<^verbatim>\<open>description\<close>, and
  \<^verbatim>\<open>fields\<close>, which is empty until the tagging loop sets it.
\<close>

record scraped =
  code_d :: string
  title_d :: string
  credits_d :: rat
  professor_d :: string
  schedule_d :: string
  description_d :: string
  fields_d :: "string list"

text \<open>The local \<^verbatim>\<open>_get\<close> of \<^verbatim>\<open>row_to_course\<close>.\<close>

definition get_cell :: "string list \<Rightarrow> (string, nat) dict \<Rightarrow> string \<Rightarrow> string" where
  "get_cell row col_index col =
     (case map_of col_index col of
        None \<Rightarrow> []
      | Some idx \<Rightarrow> if idx < length row then row ! idx else [])"

definition row_to_course :: "string list \<Rightarrow> (string, nat) dict \<Rightarrow> error + scraped" where
  "row_to_course row col_index =
     (case (if get_cell row col_index ''Credits'' \<noteq> []
            then py_float (first_token (get_cell row col_index ''Credits''))
            else Some 0) of
        None \<Rightarrow>
          Inl (ValueError (''could not convert string to float: ''
                 @ first_token (get_cell row col_index ''Credits'')))
      | Some cr \<Rightarrow>
          Inr \<lparr>code_d = strip (get_cell row col_index ''Course Code''),
               title_d = strip (get_cell row col_index ''Course Title''),
               credits_d = cr,
               professor_d = strip (get_cell row col_index ''Instructor''),
               schedule_d = strip (get_cell row col_index ''Days/Times''),
               description_d = strip (get_cell row col_index ''Description''),
               fields_d = []\<rparr>)"

text \<open>
  One turn of the row loop of \<^verbatim>\<open>parse_file\<close>. \<^verbatim>\<open>prev_course\<close> is the course
  appended last, so the courses read so far are the whole state.
\<close>

definition assemble_row :: "(string, nat) dict \<Rightarrow> string list \<Rightarrow> scraped list \<Rightarrow> error + scraped list" where
  "assemble_row col_index raw_row courses =
     (if raw_row = [] then Inr courses
      else case map_of col_index ''Course Code'' of
        None \<Rightarrow> Inl (KeyError ''Course Code'')
      | Some i \<Rightarrow>
          (let course_code = (if i < length raw_row then raw_row ! i else [])
           in if strip course_code = [] then
                (if courses = [] then Inr courses
                 else Inr (butlast courses @
                   [(last courses)\<lparr>description_d := description_d (last courses) @
                      (case map_of col_index ''Description'' of
                         None \<Rightarrow> '' '' @ join '' '' raw_row
                       | Some j \<Rightarrow> if j < length raw_row then '' '' @ raw_row ! j
                                   else '' '' @ join '' '' raw_row)\<rparr>]))
              else (case row_to_course raw_row col_index of
                      Inl err \<Rightarrow> Inl err
                    | Inr course \<Rightarrow> Inr (courses @ [course]))))"

fun assemble :: "(string, nat) dict \<Rightarrow> string list list \<Rightarrow> scraped list \<Rightarrow> error + scraped list" where
  "assemble col_index [] courses = Inr courses"
| "assemble col_index (raw_row # rows) courses =
     (case assemble_row col_index raw_row courses of
        Inl err \<Rightarrow> Inl err
      | Inr courses' \<Rightarrow> assemble col_index rows courses')"

subsection \<open>Requirement tagging and credit tally\<close>

definition REQ_MAP :: "(string, string list) dict" where
  "REQ_MAP =
     [(''BX'', [''Bible/Sacred Texts'']),
      (''BIBL'', [''Bible/Sacred Texts'']),
      (''HB'', [''Bible/Sacred Texts'']),
      (''NT'', [''Bible/Sacred Texts'']),
      (''CH'', [''Historical Studies'']),
      (''HS'', [''Historical Studies'']),
      (''PR'', [''Practical Theology'']),
      (''PT'', [''Practical Theology'']),
      (''TH'', [''Theology & Ethics'']),
      (''ETH'', [''Theology & Ethics'']),
      (''IE'', [''Interreligious Engagement'']),
      (''SW'', [''MSSW Core Courses''])]"

text \<open>\<^verbatim>\<open>totals[f] += x\<close> on a \<^verbatim>\<open>defaultdict(float)\<close>.\<close>

definition add_total :: "string \<Rightarrow> rat \<Rightarrow> (string, rat) dict \<Rightarrow> (string, rat) dict" where
  "add_total f x totals =
     AList.update f ((case map_of totals f of None \<Rightarrow> 0 | Some v \<Rightarrow> v) + x) totals"

text \<open>The tagging loop at the end of \<^verbatim>\<open>parse_file\<close>, for a lookup table and a prefix.\<close>

definition tag_course ::
  "(string, string list) dict \<Rightarrow> string \<Rightarrow> scraped \<Rightarrow> (string, rat) dict \<Rightarrow> scraped \<times> (string, rat) dict" where
  "tag_course req_map pfx c totals =
     (let fields = (case map_of req_map pfx of None \<Rightarrow> [] | Some fs \<Rightarrow> fs)
      in (c\<lparr>fields_d := fields\<rparr>, fold (\<lambda>f t. add_total f (credits_d c) t) fields totals))"

fun tag_and_tally ::
  "scraped list \<Rightarrow> (string, rat) dict \<Rightarrow> scraped list \<times> (string, rat) dict" where
  "tag_and_tally [] totals = ([], totals)"
| "tag_and_tally (c # cs) totals =
     (let (c', totals') = tag_course REQ_MAP (first_token (code_d c)) c totals;
          (cs', totals'') = tag_and_tally cs totals'
      in (c' # cs', totals''))"

record parsed =
  courses_of :: "scraped list"
  totals_of :: "(string, rat) dict"

definition parse_file :: "env \<Rightarrow> string \<Rightarrow> error + parsed" where
  "parse_file e path0 =
     (let path = resolve e path0 in
      case extract_rows e path of
        Inl err \<Rightarrow> Inl err
      | Inr rows \<Rightarrow>
      (case find_header_row rows of
        Inl err \<Rightarrow> Inl err
      | Inr header_idx \<Rightarrow>
      (case build_col_index (rows ! header_idx) of
        Inl err \<Rightarrow> Inl err
      | Inr col_index \<Rightarrow>
      (case assemble col_index (drop (header_idx + 1) rows) [] of
        Inl err \<Rightarrow> Inl err
      | Inr courses \<Rightarrow>
          (let (tagged, totals) = tag_and_tally courses []
           in Inr \<lparr>courses_of = tagged, totals_of = totals\<rparr>)))))"

subsection \<open>Directory parse\<close>

definition has_catalogue_extension :: "string \<Rightarrow> bool" where
  "has_catalogue_extension fname = (suffix ''.pdf'' (lower fname) \<or> suffix ''.rtf'' (lower fname))"

text \<open>The first loop of \<^verbatim>\<open>parse_directory\<close>: a file whose parse raises is skipped.\<close>

definition parse_each :: "env \<Rightarrow> string \<Rightarrow> string list \<Rightarrow> parsed list" where
  "parse_each e directory fnames =
     fold (\<lambda>fname data.
             if has_catalogue_extension fname
             then (case parse_file e (path_join directory fname) of
                     Inl err \<Rightarrow> data
                   | Inr d \<Rightarrow> data @ [d])
             else data)
          fnames []"

definition aggregate :: "parsed list \<Rightarrow> parsed" where
  "aggregate data =
     (let (all_courses, agg_totals) =
            fold (\<lambda>d (all_courses, agg_totals).
                    (all_courses @ courses_of d,
                     fold (\<lambda>(k, v) t. add_total k v t) (totals_of d) agg_totals))
                 data ([], [])
      in \<lparr>courses_of = all_courses, totals_of = agg_totals\<rparr>)"

text \<open>\<^verbatim>\<open>directory or DATA_DIR\<close>: \<^verbatim>\<open>None\<close> and the empty string give the default.\<close>

definition directory_or_default :: "env \<Rightarrow> string option \<Rightarrow> string" where
  "directory_or_default e directory =
     (case directory of
        None \<Rightarrow> DATA_DIR e
      | Some d \<Rightarrow> if d = [] then DATA_DIR e else d)"

definition parse_directory :: "env \<Rightarrow> string option \<Rightarrow> error + parsed" where
  "parse_directory e directory =
     (let dir = directory_or_default e directory
      in case listdir e dir of
           Inl err \<Rightarrow> Inl err
         | Inr fnames \<Rightarrow> Inr (aggregate (parse_each e dir fnames)))"

section \<open>Positional scraper (backend/parse\_courses.py)\<close>

definition REQ_MAP_backend :: "(string, string list) dict" where
  "REQ_MAP_backend =
     [(''BX'', [''Bible/Sacred Texts'']),
      (''NT'', [''Bible/Sacred Texts'', ''Cross-Testament'']),
      (''CH'', [''Historical Studies'']),
      (''HB'', [''Bible/Sacred Texts'']),
      (''OT'', [''Bible/Sacred Texts'']),
      (''TH'', [''Theological Studies'']),
      (''PT'', [''Practical Theology'']),
      (''ET'', [''Ethics'']),
      (''SW'', [''Social Work'']),
      (''MSSW'', [''Social Work''])]"

text \<open>
  \<^verbatim>\<open>assign_fields_and_tally\<close> works on the scraper's course dictionaries, of which it
  reads \<^verbatim>\<open>code\<close> and \<^verbatim>\<open>credits\<close> and writes \<^verbatim>\<open>fields\<close>; the record of the
  table-driven parser serves for them. The source updates the courses in place and
  returns the totals; the function here returns both.
\<close>

text \<open>
  \<^verbatim>\<open>course["code"].split()[0] if course["code"] else ""\<close>: the first run of
  characters that are not whitespace; a code of whitespace only has no such run and
  the index raises.
\<close>

definition split_first :: "string \<Rightarrow> error + string" where
  "split_first s =
     (if s = [] then Inr []
      else case dropWhile isspace s of
             [] \<Rightarrow> Inl IndexError
           | c # cs \<Rightarrow> Inr (takeWhile (\<lambda>x. \<not> isspace x) (c # cs)))"

fun assign_fields_and_tally_from ::
  "scraped list \<Rightarrow> (string, string list) dict \<Rightarrow> (string, rat) dict
     \<Rightarrow> error + scraped list \<times> (string, rat) dict" where
  "assign_fields_and_tally_from [] req_map field_credits = Inr ([], field_credits)"
| "assign_fields_and_tally_from (course # courses) req_map field_credits =
     (case split_first (code_d course) of
        Inl err \<Rightarrow> Inl err
      | Inr pfx \<Rightarrow>
          (let (course', field_credits') = tag_course req_map pfx course field_credits
           in case assign_fields_and_tally_from courses req_map field_credits' of
                Inl err \<Rightarrow> Inl err
              | Inr (courses', field_credits'') \<Rightarrow> Inr (course' # courses', field_credits'')))"

definition assign_fields_and_tally ::
  "scraped list \<Rightarrow> (string, string list) dict \<Rightarrow> error + scraped list \<times> (string, rat) dict" where
  "assign_fields_and_tally courses req_map = assign_fields_and_tally_from courses req_map []"

section \<open>Notions the properties are stated with\<close>

text \<open>
  The plan invariant of the data model: no course id twice within one semester's
  sequence. The plans a caller can build from a fresh plan with the two mutators:
\<close>

definition no_duplicates :: "Plan \<Rightarrow> bool" where
  "no_duplicates p = list_all (\<lambda>(sem, ids). distinct ids) (selections p)"

inductive built :: "Plan \<Rightarrow> bool" where
  fresh: "built (new_Plan now)"
| added: "built p \<Longrightarrow> built (add_course now sem cid p)"
| removed: "built p \<Longrightarrow> built (remove_course now sem cid p)"

text \<open>The ids a plan selects, semester after semester, each as often as it is listed.\<close>

definition selected_ids :: "Plan \<Rightarrow> string list" where
  "selected_ids plan = concat (map snd (selections plan))"

text \<open>
  The courses a list of selected ids brings to a requirement: for each id, in order, the
  course the lookup holds under it, kept when it satisfies the requirement.
\<close>

definition satisfying :: "(string, Course) dict \<Rightarrow> string \<Rightarrow> string list \<Rightarrow> Course list" where
  "satisfying lookup rid ids =
     filter (\<lambda>c. rid \<in> satisfies c) (List.map_filter (map_of lookup) ids)"

text \<open>
  What one selected id contributes to a requirement's total: the credits of the course
  the lookup holds under the id, when there is one and it satisfies the requirement.
\<close>

definition contribution :: "(string, Course) dict \<Rightarrow> string \<Rightarrow> string \<Rightarrow> rat" where
  "contribution lookup rid cid =
     (case map_of lookup cid of
        None \<Rightarrow> 0
      | Some c \<Rightarrow> if rid \<in> satisfies c then credits c else 0)"

text \<open>The credits a selected id adds to the plan total of \<^verbatim>\<open>calculate_total_credits\<close>.\<close>

definition credits_of :: "(string, Course) dict \<Rightarrow> string \<Rightarrow> rat" where
  "credits_of lookup cid = (case map_of lookup cid of None \<Rightarrow> 0 | Some c \<Rightarrow> credits c)"

text \<open>
  The percentage as the specification words it: the number of requirements (entries of
  the list) whose validation result is met, over the number of requirements, times 100,
  and 0 for the empty list.
\<close>

definition requirement_met :: "Plan \<Rightarrow> Course list \<Rightarrow> Requirement list \<Rightarrow> Requirement \<Rightarrow> bool" where
  "requirement_met plan courses requirements r =
     (case map_of (validate_requirements plan courses requirements) (id_req r) of
        None \<Rightarrow> False
      | Some res \<Rightarrow> is_met res)"

definition met_over_total :: "Plan \<Rightarrow> Course list \<Rightarrow> Requirement list \<Rightarrow> rat" where
  "met_over_total plan courses requirements =
     (if requirements = [] then 0
      else of_nat (length (filter (requirement_met plan courses requirements) requirements))
             / of_nat (length requirements) * 100)"

text \<open>
  The two-sided relation of the data model, on the lists the tagger returns: for every
  course and every requirement, the course id is in \<open>satisfied_by\<close> exactly when the
  requirement id is in \<open>satisfies\<close>.
\<close>

definition consistent :: "Course list \<times> Requirement list \<Rightarrow> bool" where
  "consistent cr =
     list_all (\<lambda>c. list_all (\<lambda>r. (id_course c \<in> satisfied_by r) = (id_req r \<in> satisfies c)) (snd cr))
       (fst cr)"

text \<open>The requirement ids whose keywords occur in a text, as the table lists them.\<close>

definition matching_ids :: "(string, string list) dict \<Rightarrow> string \<Rightarrow> string set" where
  "matching_ids table text = fst ` {e \<in> set table. any_keyword (snd e) text}"

definition tags :: "Course \<Rightarrow> string set" where
  "tags course = matching_ids keyword_mapping (course_text course)"

text \<open>A requirement with more course ids in its \<open>satisfied_by\<close> set.\<close>

definition add_ids :: "string set \<Rightarrow> Requirement \<Rightarrow> Requirement" where
  "add_ids S r = r\<lparr>satisfied_by := satisfied_by r \<union> S\<rparr>"

text \<open>
  The position the specification gives a canonical field: the first header cell whose
  first matching keyword names the field. And the position of the last such cell.
\<close>

definition first_cell :: "string list \<Rightarrow> string \<Rightarrow> nat option" where
  "first_cell header_row canonical =
     map_option fst (find (\<lambda>(idx, cell). cell_canonical cell = Some canonical) (enumerate 0 header_row))"

definition last_cell :: "string list \<Rightarrow> string \<Rightarrow> nat option" where
  "last_cell header_row canonical =
     map_option fst
       (find (\<lambda>(idx, cell). cell_canonical cell = Some canonical) (rev (enumerate 0 header_row)))"

text \<open>The first loop of the directory parse in closed form: the results of the files that parse.\<close>

definition parsed_or_skipped :: "env \<Rightarrow> string \<Rightarrow> string \<Rightarrow> parsed option" where
  "parsed_or_skipped e directory fname =
     (if has_catalogue_extension fname
      then (case parse_file e (path_join directory fname) of Inl err \<Rightarrow> None | Inr d \<Rightarrow> Some d)
      else None)"

text \<open>
  Two worlds that agree on the configuration and on one path: the extractor cannot tell
  them apart when that path is the one it resolves to.
\<close>

definition agree_at :: "env \<Rightarrow> env \<Rightarrow> string \<Rightarrow> bool" where
  "agree_at e1 e2 q =
     (DATA_DIR e1 = DATA_DIR e2 \<and> path_exists e1 q = path_exists e2 q
      \<and> pdf_table_rows e1 q = pdf_table_rows e2 q \<and> pdf_page_texts e1 q = pdf_page_texts e2 q
      \<and> rtf_available e1 = rtf_available e2 \<and> read_text e1 q = read_text e2 q
      \<and> rtf_to_text e1 = rtf_to_text e2)"

section \<open>Catalogues, plans and files used as examples\<close>

definition mk_course :: "string \<Rightarrow> string \<Rightarrow> string \<Rightarrow> rat \<Rightarrow> string \<Rightarrow> string set \<Rightarrow> Course" where
  "mk_course i c t cr sem sat =
     \<lparr>id_course = i, code = c, title = t, faculty = ''Dr. Smith'', credits = cr, days = ''MW'',
      time = ''10:00-11:30'', semester = sem, delivery_mode = ''In Person'',
      description = [], satisfies = sat\<rparr>"

definition mk_requirement :: "string \<Rightarrow> string \<Rightarrow> rat \<Rightarrow> Requirement" where
  "mk_requirement i l m = \<lparr>id_req = i, label = l, min_credits = m, satisfied_by = {}\<rparr>"

definition mk_plan :: "(string, string list) dict \<Rightarrow> Plan" where
  "mk_plan sels = \<lparr>selections = sels, notes_plan = [], created_at = 0, updated_at = 0\<rparr>"

definition bible_req :: Requirement where
  "bible_req = mk_requirement ''bible'' ''Bible/Sacred Texts'' 12"

definition theo_req :: Requirement where
  "theo_req = mk_requirement ''theology'' ''Theology & Ethics'' 9"

definition bibl101 :: Course where
  "bibl101 = mk_course ''BIBL101'' ''BIBL 101'' ''Biblical Studies I'' 6 ''Fall 2025'' {''bible''}"

definition bibl201 :: Course where
  "bibl201 = mk_course ''BIBL201'' ''BIBL 201'' ''Biblical Studies II'' 6 ''Spring 2026'' {''bible''}"

definition two_semester_plan :: Plan where
  "two_semester_plan = mk_plan [(''Fall 2025'', [''BIBL101'']), (''Spring 2026'', [''BIBL201''])]"

definition both_semesters_plan :: Plan where
  "both_semesters_plan = mk_plan [(''Fall 2025'', [''BIBL101'']), (''Spring 2026'', [''BIBL101''])]"

definition zero_req :: Requirement where
  "zero_req = mk_requirement ''electives'' ''Electives'' 0"

definition bibl101_12 :: Course where
  "bibl101_12 = mk_course ''BIBL101'' ''BIBL 101'' ''Biblical Studies I'' 12 ''Fall 2025'' {''bible''}"

definition theo201 :: Course where
  "theo201 = mk_course ''THEO201'' ''THEO 201'' ''Theology I'' 6 ''Fall 2025'' {''theology''}"

definition fall_plan :: Plan where
  "fall_plan = mk_plan [(''Fall 2025'', [''BIBL101'', ''THEO201''])]"

definition bible_req_second :: Requirement where
  "bible_req_second = mk_requirement ''bible'' ''Bible (second listing)'' 3"

definition historical_req :: Requirement where
  "historical_req = mk_requirement ''historical'' ''Historical Studies'' 9"

definition section_a :: Course where
  "section_a = mk_course ''BIBL 101_Fall 2025_Dr.'' ''BIBL 101'' ''Biblical Studies I'' 3 ''Fall 2025'' {}"

definition section_b :: Course where
  "section_b = mk_course ''BIBL 101_Fall 2025_Dr.'' ''BIBL 101'' ''Bible and Church'' 3 ''Fall 2025'' {}"

definition hist201 :: Course where
  "hist201 = mk_course ''HIST 201_Fall 2025_Dr.'' ''HIST 201'' ''Church History'' 3 ''Fall 2025'' {}"

definition mk_scraped :: "string \<Rightarrow> string \<Rightarrow> rat \<Rightarrow> scraped" where
  "mk_scraped c t cr =
     \<lparr>code_d = c, title_d = t, credits_d = cr, professor_d = [], schedule_d = [],
      description_d = [], fields_d = []\<rparr>"

definition three_columns :: "(string, nat) dict" where
  "three_columns = [(''Course Code'', 0), (''Course Title'', 1), (''Credits'', 2)]"

definition two_credit_columns :: "string list" where
  "two_credit_columns = [''Course Code'', ''Course Title'', ''Credits'', ''Instructor'', ''Max Credits'']"

definition sample_env :: env where
  "sample_env =
     \<lparr>DATA_DIR = ''./_context'',
      path_exists = (\<lambda>q. q \<in> set [''./_context/notes.txt'', ''./_context/good.pdf'',
                                    ''./_context/bad.pdf'']),
      listdir = (\<lambda>d. if d = ''./_context'' then Inr [''bad.pdf'', ''notes.txt'', ''good.pdf'']
                      else Inl (FileNotFoundError d)),
      pdf_table_rows = (\<lambda>q.
         if q = ''./_context/good.pdf''
         then [[Some ''Course Code'', Some ''Course Title'', Some ''Credits''],
               [Some ''BIBL 101'', Some ''Intro to Biblical Studies'', Some ''3'']]
         else if q = ''./_context/bad.pdf'' then [[Some ''Syllabus'', None]]
         else []),
      pdf_page_texts = (\<lambda>q. Inr []),
      rtf_available = True,
      read_text = (\<lambda>q. Inl (ReaderError q)),
      rtf_to_text = (\<lambda>t. Inr t)\<rparr>"

text \<open>
  A second world: as \<open>sample_env\<close>, but with a catalogue file outside the data
  directory, at \<open>/etc/passwd.pdf\<close>.
\<close>

definition outside_env :: env where
  "outside_env =
     sample_env
       \<lparr>path_exists := (\<lambda>q. q = ''/etc/passwd.pdf'' \<or> path_exists sample_env q),
        pdf_table_rows := (\<lambda>q.
          if q = ''/etc/passwd.pdf''
          then [[Some ''Course Code'', Some ''Course Title'', Some ''Credits'']]
          else pdf_table_rows sample_env q)\<rparr>"

section \<open>Plan mutators: idempotent add, silent remove\<close>

lemma map_of_update_same: "map_of (AList.update k v al) k = Some v"
  by (simp add: update_conv')

lemma list_all_update:
  "list_all (\<lambda>(k, v). P v) al \<Longrightarrow> P w \<Longrightarrow> list_all (\<lambda>(k, v). P v) (AList.update x w al)"
  by (induction al) auto

lemma map_of_list_all:
  "list_all (\<lambda>(k, v). P v) al \<Longrightarrow> map_of al x = Some w \<Longrightarrow> P w"
  by (induction al) (auto split: if_splits)

lemma count_list_distinct: "distinct xs \<Longrightarrow> x \<in> set xs \<Longrightarrow> count_list xs x = 1"
  by (induction xs) auto

lemma add_course_present:
  assumes "map_of (selections p) sem = Some ids" and "cid \<in> set ids"
  shows "add_course now sem cid p = p"
  using assms by (simp add: add_course_def)

lemma add_course_lookup:
  "\<exists>ids. map_of (selections (add_course now sem cid p)) sem = Some ids \<and> cid \<in> set ids"
  by (cases "map_of (selections p) sem")
     (auto simp: add_course_def Let_def map_of_update_same)

lemma add_course_no_duplicates:
  assumes "no_duplicates p"
  shows "no_duplicates (add_course now sem cid p)"
proof (cases "map_of (selections p) sem")
  case None
  then show ?thesis
    using assms
    by (simp add: add_course_def Let_def map_of_update_same no_duplicates_def list_all_update)
next
  case (Some ids)
  with assms have "distinct ids"
    unfolding no_duplicates_def by (rule map_of_list_all)
  with Some assms show ?thesis
    by (auto simp: add_course_def Let_def no_duplicates_def intro!: list_all_update)
qed

lemma remove_course_no_duplicates:
  assumes "no_duplicates p"
  shows "no_duplicates (remove_course now sem cid p)"
proof (cases "map_of (selections p) sem")
  case None
  with assms show ?thesis by (simp add: remove_course_def)
next
  case (Some ids)
  with assms have "distinct ids"
    unfolding no_duplicates_def by (rule map_of_list_all)
  with Some assms show ?thesis
    by (auto simp: remove_course_def no_duplicates_def intro!: list_all_update)
qed

lemma built_no_duplicates: "built p \<Longrightarrow> no_duplicates p"
proof (induction rule: built.induct)
  case (fresh now)
  show ?case by (simp add: new_Plan_def no_duplicates_def)
next
  case (added p now sem cid)
  then show ?case by (simp add: add_course_no_duplicates)
next
  case (removed p now sem cid)
  then show ?case by (simp add: remove_course_no_duplicates)
qed

text \<open>
  C7. Adding the same course to the same semester a second time changes nothing: the
  whole plan, so \<open>selections[sem]\<close> and \<open>updated_at\<close> too, is what the first call
  left, whatever the clock reads at the second call. The id is in the semester's
  sequence afterwards; \<open>add_course\<close> keeps every semester's sequence free of
  duplicates, and so every plan built from a fresh one by \<open>add_course\<close> and
  \<open>remove_course\<close> is free of them.
\<close>

theorem add_course_idempotent:
  "add_course t2 sem cid (add_course t1 sem cid p) = add_course t1 sem cid p
   \<and> (\<exists>ids. map_of (selections (add_course t1 sem cid p)) sem = Some ids \<and> cid \<in> set ids)
   \<and> (no_duplicates p \<longrightarrow> no_duplicates (add_course t1 sem cid p))
   \<and> (built p \<longrightarrow> no_duplicates (add_course t1 sem cid p)
        \<and> (\<forall>ids. map_of (selections (add_course t1 sem cid p)) sem = Some ids
               \<longrightarrow> count_list ids cid = 1))"
proof -
  obtain ids where ids: "map_of (selections (add_course t1 sem cid p)) sem = Some ids"
    "cid \<in> set ids"
    using add_course_lookup by blast
  have idem: "add_course t2 sem cid (add_course t1 sem cid p) = add_course t1 sem cid p"
    using ids by (rule add_course_present)
  have once: "count_list ids' cid = 1"
    if "built p" and "map_of (selections (add_course t1 sem cid p)) sem = Some ids'" for ids'
  proof -
    from that(1) have "no_duplicates (add_course t1 sem cid p)"
      by (simp add: built_no_duplicates add_course_no_duplicates)
    then have "distinct ids'"
      unfolding no_duplicates_def using that(2) by (rule map_of_list_all)
    moreover from that(2) ids have "cid \<in> set ids'" by simp
    ultimately show ?thesis by (simp add: count_list_distinct)
  qed
  show ?thesis
    using idem ids once
    by (auto simp: add_course_no_duplicates built_no_duplicates)
qed

theorem add_course_idempotent_witness:
  "built (new_Plan 0)
   \<and> no_duplicates (new_Plan 0)
   \<and> add_course 2 ''Fall 2025'' ''course1'' (add_course 1 ''Fall 2025'' ''course1'' (new_Plan 0))
       = add_course 1 ''Fall 2025'' ''course1'' (new_Plan 0)
   \<and> no_duplicates (add_course 1 ''Fall 2025'' ''course1'' (new_Plan 0))
   \<and> map_of (selections (add_course 1 ''Fall 2025'' ''course1'' (new_Plan 0))) ''Fall 2025''
       = Some [''course1'']
   \<and> updated_at (add_course 2 ''Fall 2025'' ''course1''
         (add_course 1 ''Fall 2025'' ''course1'' (new_Plan 0))) = 1
   \<and> count_list [''course1''] ''course1'' = 1"
proof -
  have b: "built (new_Plan 0)" by (rule built.fresh)
  have n: "no_duplicates (new_Plan 0)" by (simp add: new_Plan_def no_duplicates_def)
  have s: "map_of (selections (add_course 1 ''Fall 2025'' ''course1'' (new_Plan 0))) ''Fall 2025''
       = Some [''course1'']"
    by (simp add: add_course_def new_Plan_def)
  have u: "updated_at (add_course 1 ''Fall 2025'' ''course1'' (new_Plan 0)) = 1"
    by (simp add: add_course_def new_Plan_def)
  show ?thesis
    using add_course_idempotent [of 2 "''Fall 2025''" "''course1''" 1 "new_Plan 0"] b n s u
    by simp
qed

text \<open>
  C8. Removing a course id that is not in the semester's sequence (the semester may be
  absent altogether) returns the plan as it was: nothing raises, and neither the
  selections nor \<open>updated_at\<close> change. So a changed timestamp means that the id was
  there and one occurrence of it was removed; and removing a present id stamps the plan
  and removes its first occurrence.
\<close>

theorem remove_course_absent_noop:
  "(cid \<notin> set (get_courses_for_semester p sem) \<longrightarrow> remove_course now sem cid p = p)
   \<and> (updated_at (remove_course now sem cid p) \<noteq> updated_at p \<longrightarrow>
        cid \<in> set (get_courses_for_semester p sem))
   \<and> (cid \<in> set (get_courses_for_semester p sem) \<longrightarrow>
        updated_at (remove_course now sem cid p) = now
        \<and> get_courses_for_semester (remove_course now sem cid p) sem
            = remove1 cid (get_courses_for_semester p sem))"
  by (cases "map_of (selections p) sem")
     (auto simp: remove_course_def get_courses_for_semester_def map_of_update_same)

theorem remove_course_absent_noop_witness:
  "''nonexistent'' \<notin> set (get_courses_for_semester
        (add_course 1 ''Fall 2025'' ''course1'' (new_Plan 0)) ''Fall 2025'')
   \<and> remove_course 7 ''Fall 2025'' ''nonexistent'' (add_course 1 ''Fall 2025'' ''course1'' (new_Plan 0))
       = add_course 1 ''Fall 2025'' ''course1'' (new_Plan 0)
   \<and> ''course1'' \<in> set (get_courses_for_semester
        (add_course 1 ''Fall 2025'' ''course1'' (new_Plan 0)) ''Fall 2025'')
   \<and> updated_at (remove_course 7 ''Fall 2025'' ''course1''
        (add_course 1 ''Fall 2025'' ''course1'' (new_Plan 0))) = 7
   \<and> get_courses_for_semester (remove_course 7 ''Fall 2025'' ''course1''
        (add_course 1 ''Fall 2025'' ''course1'' (new_Plan 0))) ''Fall 2025'' = []"
proof -
  let ?p = "add_course 1 ''Fall 2025'' ''course1'' (new_Plan 0)"
  have g: "get_courses_for_semester ?p ''Fall 2025'' = [''course1'']"
    by (simp add: add_course_def new_Plan_def get_courses_for_semester_def)
  show ?thesis
    using remove_course_absent_noop [of "''nonexistent''" ?p "''Fall 2025''" 7]
      remove_course_absent_noop [of "''course1''" ?p "''Fall 2025''" 7] g
    by simp
qed

section \<open>Credit totals per requirement\<close>

subsection \<open>The lookup and the scan in closed form\<close>

lemma find_append:
  "find P (xs @ ys) = (case find P xs of None \<Rightarrow> find P ys | Some x \<Rightarrow> Some x)"
  by (induction xs) auto

lemma find_SomeD: "find P xs = Some x \<Longrightarrow> x \<in> set xs \<and> P x"
  by (induction xs) (auto split: if_splits)

lemma map_of_fold_update:
  "map_of (fold (\<lambda>x d. AList.update (k x) (v x) d) xs d0) a =
     (case find (\<lambda>x. k x = a) (rev xs) of None \<Rightarrow> map_of d0 a | Some x \<Rightarrow> Some (v x))"
proof (induction xs arbitrary: d0)
  case Nil
  show ?case by simp
next
  case (Cons x xs)
  show ?case
    by (simp add: Cons.IH find_append update_conv' split: option.splits)
qed

lemma course_lookup_find:
  "map_of (course_lookup courses) cid = find (\<lambda>c. id_course c = cid) (rev courses)"
  by (simp add: course_lookup_def map_of_fold_update split: option.splits)

lemma course_lookup_SomeD:
  assumes "map_of (course_lookup courses) cid = Some c"
  shows "c \<in> set courses \<and> id_course c = cid"
  using assms find_SomeD [of "\<lambda>c. id_course c = cid" "rev courses" c]
  by (simp add: course_lookup_find)

lemma satisfying_simps:
  "satisfying lookup rid [] = []"
  "satisfying lookup rid (cid # ids) =
     (case map_of lookup cid of
        None \<Rightarrow> satisfying lookup rid ids
      | Some c \<Rightarrow> if rid \<in> satisfies c then c # satisfying lookup rid ids
                  else satisfying lookup rid ids)"
  by (simp_all add: satisfying_def List.map_filter_simps split: option.splits)

lemma satisfying_append:
  "satisfying lookup rid (xs @ ys) = satisfying lookup rid xs @ satisfying lookup rid ys"
  by (simp add: satisfying_def List.map_filter_def)

lemma scan_course_ids_closed:
  "scan_course_ids lookup rid ids (sel, tot) =
     (sel @ satisfying lookup rid ids,
      tot + sum_list (map credits (satisfying lookup rid ids)))"
proof (induction ids arbitrary: sel tot)
  case Nil
  show ?case by (simp add: scan_course_ids_def satisfying_simps)
next
  case (Cons cid ids)
  have step: "scan_course_ids lookup rid (cid # ids) (sel, tot) =
      scan_course_ids lookup rid ids
        (case map_of lookup cid of
           None \<Rightarrow> (sel, tot)
         | Some course \<Rightarrow>
             if rid \<in> satisfies course then (sel @ [course], tot + credits course)
             else (sel, tot))"
    by (simp add: scan_course_ids_def)
  show ?case
    unfolding step
    by (cases "map_of lookup cid") (simp_all add: Cons.IH satisfying_simps)
qed

lemma fold_scan_closed:
  "fold (\<lambda>(sem, course_ids) acc. scan_course_ids lookup rid course_ids acc) sels (sel, tot) =
     (sel @ satisfying lookup rid (concat (map snd sels)),
      tot + sum_list (map credits (satisfying lookup rid (concat (map snd sels)))))"
proof (induction sels arbitrary: sel tot)
  case Nil
  show ?case by (simp add: satisfying_simps)
next
  case (Cons e sels)
  obtain sem ids where e: "e = (sem, ids)" by (cases e)
  show ?case
    by (simp add: e scan_course_ids_closed Cons.IH satisfying_append)
qed

lemma scan_selections_closed:
  "scan_selections lookup rid sels =
     (satisfying lookup rid (concat (map snd sels)),
      sum_list (map credits (satisfying lookup rid (concat (map snd sels)))))"
  by (simp add: scan_selections_def fold_scan_closed)

lemma validate_requirement_fields:
  "requirement (validate_requirement lookup plan r) = r"
  "selected_courses (validate_requirement lookup plan r) = satisfying lookup (id_req r) (selected_ids plan)"
  "total_credits (validate_requirement lookup plan r) =
     sum_list (map credits (satisfying lookup (id_req r) (selected_ids plan)))"
  "min_credits_result (validate_requirement lookup plan r) = min_credits r"
  "is_met (validate_requirement lookup plan r) =
     (min_credits r \<le> sum_list (map credits (satisfying lookup (id_req r) (selected_ids plan))))"
  "deficit (validate_requirement lookup plan r) =
     max 0 (min_credits r - sum_list (map credits (satisfying lookup (id_req r) (selected_ids plan))))"
  by (simp_all add: validate_requirement_def Let_def scan_selections_closed selected_ids_def)

lemma validate_requirements_lookup:
  "map_of (validate_requirements plan courses requirements) rid =
     (case find (\<lambda>r. id_req r = rid) (rev requirements) of
        None \<Rightarrow> None
      | Some r \<Rightarrow> Some (validate_requirement (course_lookup courses) plan r))"
  by (simp add: validate_requirements_def map_of_fold_update split: option.splits)

lemma find_rev_requirement:
  assumes "r \<in> set requirements"
  shows "\<exists>r'. find (\<lambda>x. id_req x = id_req r) (rev requirements) = Some r'
           \<and> r' \<in> set requirements \<and> id_req r' = id_req r"
proof (cases "find (\<lambda>x. id_req x = id_req r) (rev requirements)")
  case None
  with assms show ?thesis by (auto simp: find_None_iff)
next
  case (Some r')
  then show ?thesis using find_SomeD [OF Some] by simp
qed

lemma find_distinct_key:
  assumes "distinct (map k xs)" and "x \<in> set xs"
  shows "find (\<lambda>y. k y = k x) xs = Some x"
  using assms by (induction xs) (auto simp: rev_image_eqI)

subsection \<open>The sum over the catalogue when its ids are distinct\<close>

lemma sum_satisfying_contribution:
  "sum_list (map credits (satisfying lookup rid ids)) = sum_list (map (contribution lookup rid) ids)"
  by (induction ids) (simp_all add: satisfying_simps contribution_def split: option.splits)

lemma sum_list_count_split:
  fixes f :: "'a \<Rightarrow> rat"
  shows "sum_list (map f xs) = of_nat (count_list xs a) * f a + sum_list (map f (filter (\<lambda>x. x \<noteq> a) xs))"
  by (induction xs) (simp_all add: algebra_simps)

lemma sum_single_key:
  fixes g :: "'a \<Rightarrow> rat"
  assumes "distinct (map k xs)"
  shows "(\<Sum>x\<leftarrow>xs. if k x = a then g x else 0) =
           (case find (\<lambda>x. k x = a) xs of None \<Rightarrow> 0 | Some x \<Rightarrow> g x)"
  using assms
proof (induction xs)
  case Nil
  show ?case by simp
next
  case (Cons x xs)
  show ?case
  proof (cases "k x = a")
    case True
    with Cons.prems have "\<forall>y\<in>set xs. k y \<noteq> a" by (auto simp: image_iff)
    then have "(\<Sum>y\<leftarrow>xs. if k y = a then g y else 0) = 0"
      by (induction xs) auto
    with True show ?thesis by simp
  next
    case False
    with Cons show ?thesis by simp
  qed
qed

lemma contribution_catalogue:
  assumes "distinct (map id_course courses)"
  shows "contribution (course_lookup courses) rid cid =
           (\<Sum>c\<leftarrow>courses. if id_course c = cid then (if rid \<in> satisfies c then credits c else 0) else 0)"
proof -
  have d: "distinct (map id_course (rev courses))"
    using assms by (simp add: rev_map [symmetric])
  have "(\<Sum>c\<leftarrow>courses. if id_course c = cid then (if rid \<in> satisfies c then credits c else 0) else 0)
        = (\<Sum>c\<leftarrow>rev courses. if id_course c = cid then (if rid \<in> satisfies c then credits c else 0) else 0)"
    by (simp add: rev_map [symmetric])
  also have "\<dots> = (case find (\<lambda>c. id_course c = cid) (rev courses) of
                      None \<Rightarrow> 0 | Some c \<Rightarrow> if rid \<in> satisfies c then credits c else 0)"
    using d by (rule sum_single_key)
  finally show ?thesis
    by (simp add: contribution_def course_lookup_find)
qed

lemma sum_contribution_catalogue:
  assumes "distinct (map id_course courses)"
  shows "sum_list (map (contribution (course_lookup courses) rid) ids) =
           (\<Sum>c\<leftarrow>courses. if rid \<in> satisfies c
                          then of_nat (count_list ids (id_course c)) * credits c else 0)"
proof (induction ids)
  case Nil
  have "(\<Sum>c\<leftarrow>courses. if rid \<in> satisfies c
            then of_nat (count_list [] (id_course c)) * credits c else 0) = (\<Sum>c\<leftarrow>courses. 0)"
    by (rule arg_cong [where f = sum_list], rule map_cong) auto
  then show ?case by simp
next
  case (Cons cid ids)
  have "(\<Sum>c\<leftarrow>courses. if rid \<in> satisfies c
                          then of_nat (count_list (cid # ids) (id_course c)) * credits c else 0)
        = (\<Sum>c\<leftarrow>courses. (if id_course c = cid then (if rid \<in> satisfies c then credits c else 0) else 0)
              + (if rid \<in> satisfies c then of_nat (count_list ids (id_course c)) * credits c else 0))"
    by (rule arg_cong [where f = sum_list], rule map_cong) (auto simp: algebra_simps)
  also have "\<dots> = contribution (course_lookup courses) rid cid
        + (\<Sum>c\<leftarrow>courses. if rid \<in> satisfies c
                          then of_nat (count_list ids (id_course c)) * credits c else 0)"
    by (simp add: sum_list_addf contribution_catalogue [OF assms])
  finally show ?case by (simp add: Cons.IH)
qed

subsection \<open>Totals, met requirements and deficits\<close>

lemmas sample_defs = mk_course_def mk_requirement_def mk_plan_def bible_req_def theo_req_def
  bibl101_def bibl201_def two_semester_plan_def

text \<open>
  C1. For every plan, catalogue and requirement list, each requirement's id has a result
  whose \<open>total_credits\<close> is the sum, over the course ids the plan selects (every
  semester, every listed id), of the credits of the catalogue course the lookup holds
  under that id (the last one, should the catalogue list an id twice), counted when its
  \<open>satisfies\<close> set contains the requirement id; these are the credits of the
  result's \<open>selected_courses\<close>, all of them catalogue courses whose id is selected and
  which satisfy the requirement. When the catalogue's ids are pairwise distinct this is
  the sum over the catalogue's courses that satisfy the requirement of their credits,
  each times the number of times its id is selected.
  The result records the minimum of the requirement it was computed for,
  \<open>is_met\<close> is \<open>total_credits \<ge> min_credits\<close>, \<open>deficit\<close> is
  \<open>max 0 (min_credits - total_credits)\<close>, and the deficit is never negative.
\<close>

theorem validate_requirements_totals:
  "\<forall>r \<in> set requirements. \<exists>res.
      map_of (validate_requirements plan courses requirements) (id_req r) = Some res
      \<and> requirement res \<in> set requirements
      \<and> id_req (requirement res) = id_req r
      \<and> (distinct (map id_req requirements) \<longrightarrow> requirement res = r)
      \<and> min_credits_result res = min_credits (requirement res)
      \<and> selected_courses res = satisfying (course_lookup courses) (id_req r) (selected_ids plan)
      \<and> set (selected_courses res) \<subseteq>
            {c \<in> set courses. id_course c \<in> set (selected_ids plan) \<and> id_req r \<in> satisfies c}
      \<and> total_credits res = sum_list (map credits (selected_courses res))
      \<and> total_credits res =
            sum_list (map (contribution (course_lookup courses) (id_req r)) (selected_ids plan))
      \<and> (distinct (map id_course courses) \<longrightarrow>
            total_credits res =
              (\<Sum>c\<leftarrow>courses. if id_req r \<in> satisfies c
                   then of_nat (count_list (selected_ids plan) (id_course c)) * credits c else 0))
      \<and> is_met res = (total_credits res \<ge> min_credits_result res)
      \<and> deficit res = max 0 (min_credits_result res - total_credits res)
      \<and> 0 \<le> deficit res"
proof
  fix r
  assume r: "r \<in> set requirements"
  let ?lk = "course_lookup courses"
  from find_rev_requirement [OF r] obtain r' where
    r': "find (\<lambda>x. id_req x = id_req r) (rev requirements) = Some r'"
      "r' \<in> set requirements" "id_req r' = id_req r"
    by blast
  let ?res = "validate_requirement ?lk plan r'"
  have look: "map_of (validate_requirements plan courses requirements) (id_req r) = Some ?res"
    by (simp add: validate_requirements_lookup r')
  have same: "requirement ?res = r" if "distinct (map id_req requirements)"
  proof -
    from that have "distinct (map id_req (rev requirements))"
      by (simp add: rev_map [symmetric])
    then have "find (\<lambda>x. id_req x = id_req r) (rev requirements) = Some r"
      using r by (intro find_distinct_key) simp_all
    with r' show ?thesis by (simp add: validate_requirement_fields)
  qed
  have sub: "set (satisfying ?lk (id_req r) (selected_ids plan)) \<subseteq>
      {c \<in> set courses. id_course c \<in> set (selected_ids plan) \<and> id_req r \<in> satisfies c}"
    by (auto simp: satisfying_def List.map_filter_def dest: course_lookup_SomeD)
  have cat: "sum_list (map credits (satisfying ?lk (id_req r) (selected_ids plan))) =
      (\<Sum>c\<leftarrow>courses. if id_req r \<in> satisfies c
           then of_nat (count_list (selected_ids plan) (id_course c)) * credits c else 0)"
    if "distinct (map id_course courses)"
    by (simp add: sum_satisfying_contribution sum_contribution_catalogue [OF that])
  show "\<exists>res.
      map_of (validate_requirements plan courses requirements) (id_req r) = Some res
      \<and> requirement res \<in> set requirements
      \<and> id_req (requirement res) = id_req r
      \<and> (distinct (map id_req requirements) \<longrightarrow> requirement res = r)
      \<and> min_credits_result res = min_credits (requirement res)
      \<and> selected_courses res = satisfying (course_lookup courses) (id_req r) (selected_ids plan)
      \<and> set (selected_courses res) \<subseteq>
            {c \<in> set courses. id_course c \<in> set (selected_ids plan) \<and> id_req r \<in> satisfies c}
      \<and> total_credits res = sum_list (map credits (selected_courses res))
      \<and> total_credits res =
            sum_list (map (contribution (course_lookup courses) (id_req r)) (selected_ids plan))
      \<and> (distinct (map id_course courses) \<longrightarrow>
            total_credits res =
              (\<Sum>c\<leftarrow>courses. if id_req r \<in> satisfies c
                   then of_nat (count_list (selected_ids plan) (id_course c)) * credits c else 0))
      \<and> is_met res = (total_credits res \<ge> min_credits_result res)
      \<and> deficit res = max 0 (min_credits_result res - total_credits res)
      \<and> 0 \<le> deficit res"
    apply (rule exI [where x = ?res])
    using look r' same sub cat
    by (simp add: validate_requirement_fields sum_satisfying_contribution)
qed

lemma two_semester_lookup:
  "map_of (course_lookup [bibl101, bibl201]) ''BIBL101'' = Some bibl101"
  "map_of (course_lookup [bibl101, bibl201]) ''BIBL201'' = Some bibl201"
  by (simp_all add: course_lookup_def sample_defs)

theorem validate_requirements_totals_witness:
  "bible_req \<in> set [bible_req]
   \<and> distinct (map id_req [bible_req])
   \<and> distinct (map id_course [bibl101, bibl201])
   \<and> (\<exists>res. map_of (validate_requirements two_semester_plan [bibl101, bibl201] [bible_req]) ''bible''
              = Some res
         \<and> requirement res = bible_req
         \<and> selected_courses res = [bibl101, bibl201]
         \<and> total_credits res = 12
         \<and> min_credits_result res = 12
         \<and> is_met res
         \<and> deficit res = 0)"
proof -
  have m: "bible_req \<in> set [bible_req]" by simp
  have d1: "distinct (map id_req [bible_req])" by simp
  have d2: "distinct (map id_course [bibl101, bibl201])" by (simp add: sample_defs)
  have i: "id_req bible_req = ''bible''" by (simp add: sample_defs)
  have ids: "selected_ids two_semester_plan = [''BIBL101'', ''BIBL201'']"
    by (simp add: selected_ids_def sample_defs)
  have sat: "satisfying (course_lookup [bibl101, bibl201]) ''bible'' [''BIBL101'', ''BIBL201'']
      = [bibl101, bibl201]"
    by (simp add: satisfying_simps two_semester_lookup) (simp add: sample_defs)
  have cr: "credits bibl101 = 6" "credits bibl201 = 6" "min_credits bible_req = 12"
    by (simp_all add: sample_defs)
  from validate_requirements_totals [of "[bible_req]" two_semester_plan "[bibl101, bibl201]"] m
  obtain res where res:
    "map_of (validate_requirements two_semester_plan [bibl101, bibl201] [bible_req]) (id_req bible_req)
       = Some res"
    "distinct (map id_req [bible_req]) \<longrightarrow> requirement res = bible_req"
    "min_credits_result res = min_credits (requirement res)"
    "selected_courses res =
       satisfying (course_lookup [bibl101, bibl201]) (id_req bible_req) (selected_ids two_semester_plan)"
    "total_credits res = sum_list (map credits (selected_courses res))"
    "is_met res = (total_credits res \<ge> min_credits_result res)"
    "deficit res = max 0 (min_credits_result res - total_credits res)"
    by blast
  from res d1 have "requirement res = bible_req" by simp
  moreover from res(4) have "selected_courses res = [bibl101, bibl201]" by (simp add: i ids sat)
  ultimately have "map_of (validate_requirements two_semester_plan [bibl101, bibl201] [bible_req]) ''bible''
              = Some res
         \<and> requirement res = bible_req
         \<and> selected_courses res = [bibl101, bibl201]
         \<and> total_credits res = 12
         \<and> min_credits_result res = 12
         \<and> is_met res
         \<and> deficit res = 0"
    using res(1,3,5,6,7) by (simp add: i cr)
  then show ?thesis using m d1 d2 by blast
qed

subsection \<open>A course id selected in more than one semester\<close>

lemma count_concat_one:
  assumes "x \<in> set xs" and "a \<in> set (f x)"
  shows "1 \<le> count_list (concat (map f xs)) a"
  using assms
proof (induction xs)
  case Nil
  then show ?case by simp
next
  case (Cons y ys)
  show ?case
  proof (cases "x = y")
    case True
    with Cons.prems have "count_list (f y) a \<noteq> 0" by (simp add: count_list_0_iff)
    then show ?thesis by simp
  next
    case False
    with Cons have "1 \<le> count_list (concat (map f ys)) a" by simp
    then show ?thesis by simp
  qed
qed

lemma count_concat_two:
  assumes "x \<in> set xs" and "y \<in> set xs" and "x \<noteq> y"
    and "a \<in> set (f x)" and "a \<in> set (f y)"
  shows "2 \<le> count_list (concat (map f xs)) a"
  using assms
proof (induction xs)
  case Nil
  then show ?case by simp
next
  case (Cons z zs)
  have pos: "1 \<le> count_list (f w) a" if "a \<in> set (f w)" for w
    using that count_list_0_iff [of "f w" a] by (cases "count_list (f w) a") simp_all
  consider "z = x" | "z = y" | "z \<noteq> x" "z \<noteq> y" by blast
  then show ?case
  proof cases
    case 1
    with Cons.prems have "y \<in> set zs" by auto
    then have "1 \<le> count_list (concat (map f zs)) a"
      using Cons.prems(5) by (rule count_concat_one)
    with pos [OF Cons.prems(4)] 1 show ?thesis by simp
  next
    case 2
    with Cons.prems have "x \<in> set zs" by auto
    then have "1 \<le> count_list (concat (map f zs)) a"
      using Cons.prems(4) by (rule count_concat_one)
    with pos [OF Cons.prems(5)] 2 show ?thesis by simp
  next
    case 3
    with Cons have "2 \<le> count_list (concat (map f zs)) a" by auto
    then show ?thesis by simp
  qed
qed

lemma count_satisfying:
  assumes "map_of (course_lookup courses) cid = Some c" and "rid \<in> satisfies c"
  shows "count_list (satisfying (course_lookup courses) rid ids) c = count_list ids cid"
proof (induction ids)
  case Nil
  show ?case by (simp add: satisfying_simps)
next
  case (Cons x ids)
  show ?case
  proof (cases "x = cid")
    case True
    with assms Cons show ?thesis by (simp add: satisfying_simps)
  next
    case False
    have "c' \<noteq> c" if "map_of (course_lookup courses) x = Some c'" for c'
      using course_lookup_SomeD [OF that] course_lookup_SomeD [OF assms(1)] False by auto
    with False Cons show ?thesis
      by (auto simp: satisfying_simps split: option.splits)
  qed
qed

lemma fold_extend: "fold (\<lambda>xs acc. acc @ xs) xss acc = acc @ concat xss"
  by (induction xss arbitrary: acc) simp_all

lemma fold_credits:
  "fold (\<lambda>cid tot. case map_of lookup cid of None \<Rightarrow> tot | Some c \<Rightarrow> tot + credits c) ids tot0
     = tot0 + sum_list (map (credits_of lookup) ids)"
  by (induction ids arbitrary: tot0) (simp_all add: credits_of_def split: option.splits)

lemma calculate_total_credits_all:
  "calculate_total_credits plan courses None =
     sum_list (map (credits_of (course_lookup courses)) (selected_ids plan))"
  by (simp add: calculate_total_credits_def Let_def fold_extend fold_credits selected_ids_def)

text \<open>
  C10. When one course id is listed under two different semesters of a plan, is in the
  catalogue and satisfies the requirement, it is selected at least twice; the
  requirement's \<open>selected_courses\<close> hold the course as often as its id is selected, its
  credits enter \<open>total_credits\<close> that many times (the rest of the total comes from
  the other ids), and the plan total of \<open>calculate_total_credits\<close> counts them once
  per occurrence as well.
\<close>

theorem repeated_selection_counted_per_occurrence:
  assumes "(sem1, ids1) \<in> set (selections plan)" and "(sem2, ids2) \<in> set (selections plan)"
    and "sem1 \<noteq> sem2" and "cid \<in> set ids1" and "cid \<in> set ids2"
    and "map_of (course_lookup courses) cid = Some c"
    and "id_req r \<in> satisfies c" and "r \<in> set requirements"
  shows "2 \<le> count_list (selected_ids plan) cid
    \<and> (\<exists>res. map_of (validate_requirements plan courses requirements) (id_req r) = Some res
          \<and> count_list (selected_courses res) c = count_list (selected_ids plan) cid
          \<and> total_credits res =
               of_nat (count_list (selected_ids plan) cid) * credits c
               + sum_list (map (contribution (course_lookup courses) (id_req r))
                    (filter (\<lambda>x. x \<noteq> cid) (selected_ids plan))))
    \<and> calculate_total_credits plan courses None =
          of_nat (count_list (selected_ids plan) cid) * credits c
          + sum_list (map (credits_of (course_lookup courses))
               (filter (\<lambda>x. x \<noteq> cid) (selected_ids plan)))"
proof -
  let ?lk = "course_lookup courses"
  have twice: "2 \<le> count_list (selected_ids plan) cid"
    unfolding selected_ids_def
    using assms(1,2) _ _ _
  proof (rule count_concat_two)
    show "(sem1, ids1) \<noteq> (sem2, ids2)" using assms(3) by simp
    show "cid \<in> set (snd (sem1, ids1))" using assms(4) by simp
    show "cid \<in> set (snd (sem2, ids2))" using assms(5) by simp
  qed
  from find_rev_requirement [OF assms(8)] obtain r' where
    r': "find (\<lambda>x. id_req x = id_req r) (rev requirements) = Some r'" "id_req r' = id_req r"
    by blast
  let ?res = "validate_requirement ?lk plan r'"
  have look: "map_of (validate_requirements plan courses requirements) (id_req r) = Some ?res"
    by (simp add: validate_requirements_lookup r')
  have cnt: "count_list (selected_courses ?res) c = count_list (selected_ids plan) cid"
    using assms(6,7) by (simp add: validate_requirement_fields r' count_satisfying)
  have con: "contribution ?lk (id_req r) cid = credits c"
    using assms(6,7) by (simp add: contribution_def)
  have tot: "total_credits ?res =
      of_nat (count_list (selected_ids plan) cid) * credits c
      + sum_list (map (contribution ?lk (id_req r)) (filter (\<lambda>x. x \<noteq> cid) (selected_ids plan)))"
    using sum_list_count_split [of "contribution ?lk (id_req r)" "selected_ids plan" cid]
    by (simp add: validate_requirement_fields r' sum_satisfying_contribution con)
  have "credits_of ?lk cid = credits c"
    using assms(6) by (simp add: credits_of_def)
  then have calc: "calculate_total_credits plan courses None =
      of_nat (count_list (selected_ids plan) cid) * credits c
      + sum_list (map (credits_of ?lk) (filter (\<lambda>x. x \<noteq> cid) (selected_ids plan)))"
    using sum_list_count_split [of "credits_of ?lk" "selected_ids plan" cid]
    by (simp add: calculate_total_credits_all)
  from twice look cnt tot calc show ?thesis by blast
qed

theorem repeated_selection_counted_per_occurrence_witness:
  "(''Fall 2025'', [''BIBL101'']) \<in> set (selections both_semesters_plan)
   \<and> (''Spring 2026'', [''BIBL101'']) \<in> set (selections both_semesters_plan)
   \<and> ''Fall 2025'' \<noteq> ''Spring 2026''
   \<and> map_of (course_lookup [bibl101]) ''BIBL101'' = Some bibl101
   \<and> id_req bible_req \<in> satisfies bibl101
   \<and> count_list (selected_ids both_semesters_plan) ''BIBL101'' = 2
   \<and> (\<exists>res. map_of (validate_requirements both_semesters_plan [bibl101] [bible_req]) ''bible'' = Some res
         \<and> count_list (selected_courses res) bibl101 = 2
         \<and> total_credits res = 12)
   \<and> calculate_total_credits both_semesters_plan [bibl101] None = 12"
proof -
  have a1: "(''Fall 2025'', [''BIBL101'']) \<in> set (selections both_semesters_plan)"
    and a2: "(''Spring 2026'', [''BIBL101'']) \<in> set (selections both_semesters_plan)"
    by (simp_all add: both_semesters_plan_def mk_plan_def)
  have a3: "''Fall 2025'' \<noteq> ''Spring 2026''" by simp
  have a4: "''BIBL101'' \<in> set [''BIBL101'']" by simp
  have a6: "map_of (course_lookup [bibl101]) ''BIBL101'' = Some bibl101"
    by (simp add: course_lookup_def sample_defs)
  have a7: "id_req bible_req \<in> satisfies bibl101" by (simp add: sample_defs)
  have a8: "bible_req \<in> set [bible_req]" by simp
  have ids: "selected_ids both_semesters_plan = [''BIBL101'', ''BIBL101'']"
    by (simp add: selected_ids_def both_semesters_plan_def mk_plan_def)
  have v: "id_req bible_req = ''bible''" "credits bibl101 = 6" by (simp_all add: sample_defs)
  show ?thesis
    using repeated_selection_counted_per_occurrence [OF a1 a2 a3 a4 a4 a6 a7 a8] a1 a2 a6 a7
    by (simp add: ids v numeral_2_eq_2)
qed

section \<open>Aggregate progress\<close>

lemma fold_update_keys:
  "distinct (map fst d0) \<Longrightarrow>
   distinct (map fst (fold (\<lambda>x d. AList.update (k x) (v x) d) xs d0))
   \<and> fst ` set (fold (\<lambda>x d. AList.update (k x) (v x) d) xs d0) = fst ` set d0 \<union> k ` set xs"
proof (induction xs arbitrary: d0)
  case Nil
  then show ?case by simp
next
  case (Cons x xs)
  from Cons.prems have "distinct (map fst (AList.update (k x) (v x) d0))"
    by (rule distinct_update)
  from Cons.IH [OF this] show ?case
    by (auto simp: dom_update)
qed

lemma validate_requirements_keys:
  "distinct (map fst (validate_requirements plan courses requirements))"
  "fst ` set (validate_requirements plan courses requirements) = id_req ` set requirements"
  using fold_update_keys [of "[]" id_req
      "validate_requirement (course_lookup courses) plan" requirements]
  by (simp_all add: validate_requirements_def)

lemma count_values:
  assumes "distinct (map fst al)"
  shows "length (filter P (map snd al)) =
           card {k \<in> fst ` set al. \<exists>v. map_of al k = Some v \<and> P v}"
  using assms
proof (induction al)
  case Nil
  show ?case by simp
next
  case (Cons e al)
  obtain a b where e: "e = (a, b)" by (cases e)
  from Cons.prems e have a: "a \<notin> fst ` set al" and d: "distinct (map fst al)" by auto
  let ?S = "{k \<in> fst ` set al. \<exists>v. map_of al k = Some v \<and> P v}"
  have fin: "finite ?S" by simp
  have notin: "a \<notin> ?S" using a by simp
  have S: "{k \<in> fst ` set (e # al). \<exists>v. map_of (e # al) k = Some v \<and> P v}
      = (if P b then insert a ?S else ?S)"
    using a by (auto simp: e)
  have l: "length (filter P (map snd (e # al))) =
      (if P b then Suc (length (filter P (map snd al))) else length (filter P (map snd al)))"
    by (simp add: e)
  have c: "card (if P b then insert a ?S else ?S) = (if P b then Suc (card ?S) else card ?S)"
    using fin notin by simp
  show ?case
    unfolding S l c using Cons.IH [OF d] by simp
qed

lemma met_keys:
  "{k \<in> id_req ` set requirements.
      \<exists>v. map_of (validate_requirements plan courses requirements) k = Some v \<and> is_met v}
   = id_req ` {r \<in> set requirements. requirement_met plan courses requirements r}"
  by (auto simp: requirement_met_def image_iff split: option.splits)

lemma met_requirements_card:
  "met_requirements (get_requirement_progress plan courses requirements) =
     card (id_req ` {r \<in> set requirements. requirement_met plan courses requirements r})"
  using count_values [OF validate_requirements_keys(1), of is_met plan courses requirements]
  by (simp add: get_requirement_progress_def Let_def validate_requirements_keys(2) met_keys)

lemma card_met_distinct:
  assumes "distinct (map id_req requirements)"
  shows "card (id_req ` {r \<in> set requirements. P r}) = length (filter P requirements)"
proof -
  from assms have inj: "inj_on id_req (set requirements)" and d: "distinct requirements"
    by (simp_all add: distinct_map)
  have "inj_on id_req {r \<in> set requirements. P r}"
    by (rule inj_on_subset [OF inj]) auto
  then have "card (id_req ` {r \<in> set requirements. P r}) = card {r \<in> set requirements. P r}"
    by (rule card_image)
  also have "\<dots> = card (set (filter P requirements))" by simp
  also have "\<dots> = length (filter P requirements)"
    by (rule distinct_card) (use d in simp)
  finally show ?thesis .
qed

lemma progress_percentage_unfold:
  "progress_percentage (get_requirement_progress plan courses requirements) =
     (if requirements = [] then 0
      else of_nat (met_requirements (get_requirement_progress plan courses requirements))
             / of_nat (length requirements) * 100)"
  by (simp add: get_requirement_progress_def Let_def)

text \<open>
  C9 as stated fails when two requirements of the list share an id: both entries have a
  met result, so the stated quotient is 2 of 2, but the results are keyed by id and the
  code counts one met result against two requirements.
\<close>

theorem progress_percentage_counterexample:
  "progress_percentage (get_requirement_progress (mk_plan []) [] [zero_req, zero_req]) = 50
   \<and> met_over_total (mk_plan []) [] [zero_req, zero_req] = 100
   \<and> progress_percentage (get_requirement_progress (mk_plan []) [] [zero_req, zero_req])
       \<noteq> met_over_total (mk_plan []) [] [zero_req, zero_req]"
proof -
  have v: "validate_requirements (mk_plan []) [] [zero_req, zero_req]
      = [(''electives'', validate_requirement [] (mk_plan []) zero_req)]"
    by (simp add: validate_requirements_def course_lookup_def zero_req_def mk_requirement_def)
  have m: "is_met (validate_requirement [] (mk_plan []) zero_req)"
    by (simp add: validate_requirement_fields satisfying_simps selected_ids_def mk_plan_def
        zero_req_def mk_requirement_def)
  have p: "progress_percentage (get_requirement_progress (mk_plan []) [] [zero_req, zero_req]) = 50"
    by (simp add: get_requirement_progress_def Let_def v m)
  have i: "id_req zero_req = ''electives''" by (simp add: zero_req_def mk_requirement_def)
  have r: "requirement_met (mk_plan []) [] [zero_req, zero_req] zero_req"
    by (simp add: requirement_met_def v i m)
  have q: "met_over_total (mk_plan []) [] [zero_req, zero_req] = 100"
    by (simp add: met_over_total_def r)
  show ?thesis by (simp add: p q)
qed

text \<open>
  C9, amended. The percentage is the number of distinct requirement ids whose validation
  result is met, over the number of requirements in the list, times 100, and 0 for the
  empty list (no division takes place there). When the requirement ids are pairwise
  distinct this is the number of requirements whose result is met over the number of
  requirements, times 100.
\<close>

theorem progress_percentage_value:
  "progress_percentage (get_requirement_progress plan courses requirements) =
     (if requirements = [] then 0
      else of_nat (card (id_req ` {r \<in> set requirements.
                                      requirement_met plan courses requirements r}))
             / of_nat (length requirements) * 100)
   \<and> (requirements = [] \<longrightarrow>
        progress_percentage (get_requirement_progress plan courses requirements) = 0)
   \<and> (distinct (map id_req requirements) \<longrightarrow>
        progress_percentage (get_requirement_progress plan courses requirements)
          = met_over_total plan courses requirements)"
  by (simp add: progress_percentage_unfold met_requirements_card met_over_total_def
      card_met_distinct)

lemma fall_lookup:
  "map_of (course_lookup [bibl101_12, theo201]) ''BIBL101'' = Some bibl101_12"
  "map_of (course_lookup [bibl101_12, theo201]) ''THEO201'' = Some theo201"
  by (simp_all add: course_lookup_def bibl101_12_def theo201_def mk_course_def)

lemma fall_met:
  "requirement_met fall_plan [bibl101_12, theo201] [bible_req, theo_req] bible_req"
  "\<not> requirement_met fall_plan [bibl101_12, theo201] [bible_req, theo_req] theo_req"
proof -
  have ids: "selected_ids fall_plan = [''BIBL101'', ''THEO201'']"
    by (simp add: selected_ids_def fall_plan_def mk_plan_def)
  have i: "id_req bible_req = ''bible''" "id_req theo_req = ''theology''"
    "min_credits bible_req = 12" "min_credits theo_req = 9"
    by (simp_all add: sample_defs)
  have s: "satisfies bibl101_12 = {''bible''}" "satisfies theo201 = {''theology''}"
    "credits bibl101_12 = 12" "credits theo201 = 6"
    by (simp_all add: bibl101_12_def theo201_def mk_course_def)
  show "requirement_met fall_plan [bibl101_12, theo201] [bible_req, theo_req] bible_req"
    by (simp add: requirement_met_def validate_requirements_lookup i validate_requirement_fields
        ids satisfying_simps fall_lookup s)
  show "\<not> requirement_met fall_plan [bibl101_12, theo201] [bible_req, theo_req] theo_req"
    by (simp add: requirement_met_def validate_requirements_lookup i validate_requirement_fields
        ids satisfying_simps fall_lookup s)
qed

theorem progress_percentage_value_witness:
  "distinct (map id_req [bible_req, theo_req])
   \<and> met_over_total fall_plan [bibl101_12, theo201] [bible_req, theo_req] = 50
   \<and> progress_percentage (get_requirement_progress fall_plan [bibl101_12, theo201] [bible_req, theo_req])
       = 50
   \<and> progress_percentage (get_requirement_progress fall_plan [bibl101_12, theo201] []) = 0"
proof -
  have d: "distinct (map id_req [bible_req, theo_req])" by (simp add: sample_defs)
  have m: "met_over_total fall_plan [bibl101_12, theo201] [bible_req, theo_req] = 50"
    by (simp add: met_over_total_def fall_met)
  show ?thesis
    using progress_percentage_value [of fall_plan "[bibl101_12, theo201]" "[bible_req, theo_req]"]
      progress_percentage_value [of fall_plan "[bibl101_12, theo201]" "[]"] d m
    by simp
qed

section \<open>Keyword tagger: the two-sided relation\<close>

lemma matching_ids_simps:
  "matching_ids [] text = {}"
  "matching_ids ((rid, kws) # table) text =
     (if any_keyword kws text then insert rid (matching_ids table text)
      else matching_ids table text)"
  by (auto simp: matching_ids_def image_iff)

lemma add_ids_simps [simp]:
  "id_req (add_ids S r) = id_req r"
  "satisfied_by (add_ids S r) = satisfied_by r \<union> S"
  "add_ids {} r = r"
  "add_ids S (add_ids T r) = add_ids (T \<union> S) r"
  by (simp_all add: add_ids_def Un_assoc)

lemma add_ids_cong: "S = T \<Longrightarrow> add_ids S r = add_ids T r"
  by simp

lemma add_satisfied_by_ids [simp]:
  "map id_req (add_satisfied_by rid cid reqs) = map id_req reqs"
  by (induction reqs) simp_all

lemma add_satisfied_by_distinct:
  assumes "distinct (map id_req reqs)"
  shows "add_satisfied_by rid cid reqs =
           map (\<lambda>r. add_ids (if id_req r = rid then {cid} else {}) r) reqs"
  using assms
proof (induction reqs)
  case Nil
  show ?case by simp
next
  case (Cons req reqs)
  show ?case
  proof (cases "id_req req = rid")
    case True
    with Cons.prems have "\<forall>r\<in>set reqs. id_req r \<noteq> rid" by (auto simp: image_iff)
    then have "map (\<lambda>r. add_ids (if id_req r = rid then {cid} else {}) r) reqs = reqs"
      by (intro map_idI) simp
    with True show ?thesis by (simp add: add_ids_def)
  next
    case False
    with Cons show ?thesis by simp
  qed
qed

lemma fold_table:
  assumes "distinct (map id_req reqs)"
  shows "fold (\<lambda>(rid, kws) (c, reqs).
             if any_keyword kws text
             then (c\<lparr>satisfies := insert rid (satisfies c)\<rparr>, add_satisfied_by rid (id_course c) reqs)
             else (c, reqs))
          table (c, reqs)
     = (c\<lparr>satisfies := satisfies c \<union> matching_ids table text\<rparr>,
        map (\<lambda>r. add_ids (if id_req r \<in> matching_ids table text then {id_course c} else {}) r) reqs)"
  using assms
proof (induction table arbitrary: c reqs)
  case Nil
  show ?case by (simp add: matching_ids_simps map_idI)
next
  case (Cons e table)
  obtain rid kws where e: "e = (rid, kws)" by (cases e)
  show ?case
  proof (cases "any_keyword kws text")
    case False
    then show ?thesis
      using Cons.IH [OF Cons.prems] by (simp add: e matching_ids_simps)
  next
    case True
    let ?c = "c\<lparr>satisfies := insert rid (satisfies c)\<rparr>"
    let ?reqs = "add_satisfied_by rid (id_course c) reqs"
    have d: "distinct (map id_req ?reqs)" using Cons.prems by simp
    have r: "?reqs = map (\<lambda>r. add_ids (if id_req r = rid then {id_course c} else {}) r) reqs"
      using Cons.prems by (rule add_satisfied_by_distinct)
    have "fold (\<lambda>(rid, kws) (c, reqs).
             if any_keyword kws text
             then (c\<lparr>satisfies := insert rid (satisfies c)\<rparr>, add_satisfied_by rid (id_course c) reqs)
             else (c, reqs))
          (e # table) (c, reqs)
       = (?c\<lparr>satisfies := satisfies ?c \<union> matching_ids table text\<rparr>,
          map (\<lambda>r. add_ids (if id_req r \<in> matching_ids table text then {id_course ?c} else {}) r)
            ?reqs)"
      using Cons.IH [OF d, of ?c] True by (simp add: e)
    also have "\<dots> = (c\<lparr>satisfies := satisfies c \<union> matching_ids (e # table) text\<rparr>,
        map (\<lambda>r. add_ids (if id_req r \<in> matching_ids (e # table) text then {id_course c} else {}) r)
          reqs)"
      unfolding r using True
      by (auto simp: e matching_ids_simps intro!: add_ids_cong)
    finally show ?thesis .
  qed
qed

lemma link_course_distinct:
  assumes "distinct (map id_req reqs)"
  shows "link_course c reqs =
     (c\<lparr>satisfies := satisfies c \<union> tags c\<rparr>,
      map (\<lambda>r. add_ids (if id_req r \<in> tags c then {id_course c} else {}) r) reqs)"
  unfolding link_course_def tags_def using assms by (rule fold_table)

lemma link_courses_distinct:
  assumes "distinct (map id_req reqs)"
  shows "link_courses_to_requirements courses reqs =
     (map (\<lambda>c. c\<lparr>satisfies := satisfies c \<union> tags c\<rparr>) courses,
      map (\<lambda>r. add_ids (id_course ` {c \<in> set courses. id_req r \<in> tags c}) r) reqs)"
  using assms
proof (induction courses arbitrary: reqs)
  case Nil
  show ?case by (simp add: map_idI)
next
  case (Cons c courses)
  let ?reqs = "map (\<lambda>r. add_ids (if id_req r \<in> tags c then {id_course c} else {}) r) reqs"
  have d: "distinct (map id_req ?reqs)"
    using Cons.prems by (simp add: comp_def)
  show ?case
    by (auto simp: link_course_distinct [OF Cons.prems] Cons.IH [OF d] intro!: add_ids_cong)
qed

lemma any_keyword_simps:
  "any_keyword [] text = False"
  "any_keyword (k # ks) text = (sublist k text \<or> any_keyword ks text)"
  by (simp_all add: any_keyword_def)

text \<open>
  C2 as stated fails in two ways. With two requirements of the same id, only the first
  one in the list receives the course id (the inner loop breaks at the first match), so
  the second stays empty although the course carries its id. With two courses of the
  same id and different titles, a requirement matched by one of them holds the shared
  id, which is also the id of the course that was not tagged.
\<close>

theorem link_courses_counterexample:
  "satisfies section_a = {} \<and> satisfies section_b = {}
   \<and> satisfied_by bible_req = {} \<and> satisfied_by bible_req_second = {}
   \<and> satisfied_by historical_req = {}
   \<and> map satisfies (fst (link_courses_to_requirements [section_a] [bible_req, bible_req_second]))
       = [{''bible''}]
   \<and> map satisfied_by (snd (link_courses_to_requirements [section_a] [bible_req, bible_req_second]))
       = [{''BIBL 101_Fall 2025_Dr.''}, {}]
   \<and> \<not> consistent (link_courses_to_requirements [section_a] [bible_req, bible_req_second])
   \<and> map satisfies (fst (link_courses_to_requirements [section_a, section_b] [bible_req, historical_req]))
       = [{''bible''}, {''bible'', ''historical''}]
   \<and> map satisfied_by (snd (link_courses_to_requirements [section_a, section_b] [bible_req, historical_req]))
       = [{''BIBL 101_Fall 2025_Dr.''}, {''BIBL 101_Fall 2025_Dr.''}]
   \<and> \<not> consistent (link_courses_to_requirements [section_a, section_b] [bible_req, historical_req])"
  by code_simp

text \<open>
  C2, amended. When the course ids are pairwise distinct and the requirement ids are
  pairwise distinct, and every \<open>satisfies\<close> and \<open>satisfied_by\<close> set is empty at the
  start, the tagger leaves the two sides consistent: for every course and every
  requirement of the returned lists, the course's id is in the requirement's
  \<open>satisfied_by\<close> exactly when the requirement's id is in the course's \<open>satisfies\<close>.
\<close>

theorem link_courses_consistent:
  assumes "distinct (map id_course courses)" and "distinct (map id_req requirements)"
    and "\<forall>c\<in>set courses. satisfies c = {}" and "\<forall>r\<in>set requirements. satisfied_by r = {}"
  shows "consistent (link_courses_to_requirements courses requirements)
    \<and> (\<forall>c\<in>set (fst (link_courses_to_requirements courses requirements)).
        \<forall>r\<in>set (snd (link_courses_to_requirements courses requirements)).
          (id_course c \<in> satisfied_by r) = (id_req r \<in> satisfies c))"
proof -
  have inj: "inj_on id_course (set courses)"
    using assms(1) by (simp add: distinct_map)
  have "(id_course c \<in> satisfied_by r \<union> id_course ` {c' \<in> set courses. id_req r \<in> tags c'})
      = (id_req r \<in> satisfies c \<union> tags c)"
    if "c \<in> set courses" and "r \<in> set requirements" for c r
  proof -
    have "(id_course c \<in> id_course ` {c' \<in> set courses. id_req r \<in> tags c'}) = (id_req r \<in> tags c)"
      using that(1) inj by (auto dest: inj_onD)
    with that assms(3,4) show ?thesis by simp
  qed
  then have all: "\<forall>c\<in>set (fst (link_courses_to_requirements courses requirements)).
        \<forall>r\<in>set (snd (link_courses_to_requirements courses requirements)).
          (id_course c \<in> satisfied_by r) = (id_req r \<in> satisfies c)"
    by (simp add: link_courses_distinct [OF assms(2)])
  then show ?thesis
    by (simp add: consistent_def list_all_iff)
qed

theorem link_courses_consistent_witness:
  "distinct (map id_course [section_a, hist201])
   \<and> distinct (map id_req [bible_req, historical_req])
   \<and> list_all (\<lambda>c. satisfies c = {}) [section_a, hist201]
   \<and> list_all (\<lambda>r. satisfied_by r = {}) [bible_req, historical_req]
   \<and> consistent (link_courses_to_requirements [section_a, hist201] [bible_req, historical_req])
   \<and> map satisfies (fst (link_courses_to_requirements [section_a, hist201] [bible_req, historical_req]))
       = [{''bible''}, {''historical''}]
   \<and> map satisfied_by (snd (link_courses_to_requirements [section_a, hist201] [bible_req, historical_req]))
       = [{''BIBL 101_Fall 2025_Dr.''}, {''HIST 201_Fall 2025_Dr.''}]"
proof -
  have d1: "distinct (map id_course [section_a, hist201])" by code_simp
  have d2: "distinct (map id_req [bible_req, historical_req])" by code_simp
  have e1: "list_all (\<lambda>c. satisfies c = {}) [section_a, hist201]" by code_simp
  have e2: "list_all (\<lambda>r. satisfied_by r = {}) [bible_req, historical_req]" by code_simp
  have v1: "map satisfies (fst (link_courses_to_requirements [section_a, hist201] [bible_req, historical_req]))
       = [{''bible''}, {''historical''}]" by code_simp
  have v2: "map satisfied_by (snd (link_courses_to_requirements [section_a, hist201] [bible_req, historical_req]))
       = [{''BIBL 101_Fall 2025_Dr.''}, {''HIST 201_Fall 2025_Dr.''}]" by code_simp
  from e1 have h1: "\<forall>c\<in>set [section_a, hist201]. satisfies c = {}" by (simp only: list_all_iff)
  from e2 have h2: "\<forall>r\<in>set [bible_req, historical_req]. satisfied_by r = {}" by (simp only: list_all_iff)
  from link_courses_consistent [OF d1 d2 h1 h2]
  have "consistent (link_courses_to_requirements [section_a, hist201] [bible_req, historical_req])"
    by (rule conjunct1)
  with d1 d2 e1 e2 v1 v2 show ?thesis by blast
qed

section \<open>The prefix used for the requirement lookup\<close>

text \<open>
  A code without whitespace is looked up whole, so unless the code itself is a key of
  the table the course gets no category and the totals stay as they were.
\<close>

lemma first_token_whole:
  assumes "list_all (\<lambda>c. \<not> isspace c) s"
  shows "first_token s = s"
  using assms by (simp add: first_token_def list_all_iff)

lemma unspaced_code_untagged:
  assumes "list_all (\<lambda>x. \<not> isspace x) (code_d c)" and "map_of REQ_MAP (code_d c) = None"
  shows "tag_and_tally [c] totals = ([c\<lparr>fields_d := []\<rparr>], totals)"
  using assms by (simp add: first_token_whole tag_course_def)

lemma unspaced_code_untagged_backend:
  assumes "code_d c \<noteq> []" and "list_all (\<lambda>x. \<not> isspace x) (code_d c)"
    and "map_of req_map (code_d c) = None"
  shows "assign_fields_and_tally [c] req_map = Inr ([c\<lparr>fields_d := []\<rparr>], [])"
proof -
  from assms(1,2) have "split_first (code_d c) = Inr (code_d c)"
    by (cases "code_d c") (simp_all add: split_first_def list_all_iff takeWhile_eq_all_conv)
  with assms(3) show ?thesis
    by (simp add: assign_fields_and_tally_def tag_course_def)
qed

text \<open>
  C3. Both taggers look up the text of the course code before its first whitespace
  character, not its leading letters: \<open>BIBL 101\<close> gives \<open>BIBL\<close>, but \<open>SW501\<close>
  gives \<open>SW501\<close>, which neither table lists although both list \<open>SW\<close>; the course
  gets no category and no total is credited.
\<close>

theorem prefix_is_first_whitespace_token:
  "first_token ''BIBL 101'' = ''BIBL''
   \<and> tag_and_tally [mk_scraped ''BIBL 101'' ''Biblical Studies'' 3] []
       = ([(mk_scraped ''BIBL 101'' ''Biblical Studies'' 3)\<lparr>fields_d := [''Bible/Sacred Texts'']\<rparr>],
          [(''Bible/Sacred Texts'', 3)])
   \<and> map_of REQ_MAP ''SW'' = Some [''MSSW Core Courses'']
   \<and> first_token ''SW501'' = ''SW501''
   \<and> tag_and_tally [mk_scraped ''SW501'' ''Social Work Practice'' 3] []
       = ([mk_scraped ''SW501'' ''Social Work Practice'' 3], [])
   \<and> map_of REQ_MAP_backend ''SW'' = Some [''Social Work'']
   \<and> split_first ''SW501'' = Inr ''SW501''
   \<and> assign_fields_and_tally [mk_scraped ''SW501'' ''Social Work Practice'' 3] REQ_MAP_backend
       = Inr ([mk_scraped ''SW501'' ''Social Work Practice'' 3], [])"
  by code_simp

section \<open>Credits that do not parse\<close>

text \<open>The three outcomes of \<open>row_to_course\<close>, by the Credits cell.\<close>

lemma row_to_course_default:
  assumes "get_cell row col_index ''Credits'' = []"
  shows "\<exists>course. row_to_course row col_index = Inr course \<and> credits_d course = 0"
  using assms by (simp add: row_to_course_def)

lemma row_to_course_parsed:
  assumes "get_cell row col_index ''Credits'' \<noteq> []"
    and "py_float (first_token (get_cell row col_index ''Credits'')) = Some x"
  shows "\<exists>course. row_to_course row col_index = Inr course \<and> credits_d course = x"
  using assms by (simp add: row_to_course_def)

lemma row_to_course_raises:
  assumes "get_cell row col_index ''Credits'' \<noteq> []"
    and "py_float (first_token (get_cell row col_index ''Credits'')) = None"
  shows "\<exists>msg. row_to_course row col_index = Inl (ValueError msg)"
  using assms by (simp add: row_to_course_def)

text \<open>
  C4. The credits are the number read from the first whitespace-separated token of the
  Credits cell, and 0 when the cell is absent or empty. A non-empty cell whose first
  token is not a number is not defaulted: \<open>float\<close> raises, \<open>row_to_course\<close> lets the
  error through, and the row loop of \<open>parse_file\<close> stops with it.
\<close>

theorem unparsable_credits_raise:
  "build_col_index [''Course Code'', ''Course Title'', ''Credits''] = Inr three_columns
   \<and> row_to_course [''BIBL 101'', ''Intro to Biblical Studies'', ''3 credits''] three_columns
       = Inr (mk_scraped ''BIBL 101'' ''Intro to Biblical Studies'' 3)
   \<and> row_to_course [''BIBL 101'', ''Intro to Biblical Studies''] three_columns
       = Inr (mk_scraped ''BIBL 101'' ''Intro to Biblical Studies'' 0)
   \<and> row_to_course [''BIBL 101'', ''Intro to Biblical Studies'', ''''] three_columns
       = Inr (mk_scraped ''BIBL 101'' ''Intro to Biblical Studies'' 0)
   \<and> py_float ''TBD'' = None
   \<and> row_to_course [''BIBL 101'', ''Intro to Biblical Studies'', ''TBD''] three_columns
       = Inl (ValueError ''could not convert string to float: TBD'')
   \<and> assemble three_columns
        [[''BIBL 101'', ''Intro to Biblical Studies'', ''TBD''],
         [''HIST 201'', ''Church History'', ''3'']] []
       = Inl (ValueError ''could not convert string to float: TBD'')"
  by code_simp

section \<open>Which header cell a column index names\<close>

lemma build_mapping_snoc:
  "build_mapping (cells @ [cell]) =
     (case cell_canonical cell of
        None \<Rightarrow> build_mapping cells
      | Some canonical \<Rightarrow> AList.update canonical (length cells) (build_mapping cells))"
  by (simp add: build_mapping_def enumerate_append_eq split: option.split)

lemma last_cell_snoc:
  "last_cell (cells @ [cell]) canonical =
     (if cell_canonical cell = Some canonical then Some (length cells) else last_cell cells canonical)"
  by (simp add: last_cell_def enumerate_append_eq)

lemma build_mapping_last_cell:
  "map_of (build_mapping header_row) canonical = last_cell header_row canonical"
proof (induction header_row rule: rev_induct)
  case Nil
  show ?case by (simp add: build_mapping_def last_cell_def)
next
  case (snoc cell cells)
  show ?case
    by (cases "cell_canonical cell")
       (simp_all add: build_mapping_snoc last_cell_snoc snoc.IH update_conv')
qed

lemma last_cell_Some_iff:
  "(last_cell header_row canonical = Some i) =
     (i < length header_row \<and> cell_canonical (header_row ! i) = Some canonical
      \<and> (\<forall>j. i < j \<and> j < length header_row \<longrightarrow> cell_canonical (header_row ! j) \<noteq> Some canonical))"
proof (induction header_row rule: rev_induct)
  case Nil
  show ?case by (simp add: last_cell_def)
next
  case (snoc cell cells)
  show ?case
  proof (cases "cell_canonical cell = Some canonical")
    case True
    have "(i < Suc (length cells) \<and> cell_canonical ((cells @ [cell]) ! i) = Some canonical
      \<and> (\<forall>j. i < j \<and> j < Suc (length cells) \<longrightarrow> cell_canonical ((cells @ [cell]) ! j) \<noteq> Some canonical))
      = (i = length cells)"
    proof
      assume a: "i < Suc (length cells) \<and> cell_canonical ((cells @ [cell]) ! i) = Some canonical
      \<and> (\<forall>j. i < j \<and> j < Suc (length cells) \<longrightarrow> cell_canonical ((cells @ [cell]) ! j) \<noteq> Some canonical)"
      show "i = length cells"
      proof (rule ccontr)
        assume "i \<noteq> length cells"
        with a have "i < length cells" by simp
        moreover from a have "\<forall>j. i < j \<and> j < Suc (length cells)
            \<longrightarrow> cell_canonical ((cells @ [cell]) ! j) \<noteq> Some canonical"
          by (rule_tac conjunct2 [OF conjunct2])
        ultimately have "cell_canonical ((cells @ [cell]) ! length cells) \<noteq> Some canonical"
          by (simp del: nth_append_length)
        with True show False by simp
      qed
    next
      assume "i = length cells"
      with True show "i < Suc (length cells) \<and> cell_canonical ((cells @ [cell]) ! i) = Some canonical
      \<and> (\<forall>j. i < j \<and> j < Suc (length cells) \<longrightarrow> cell_canonical ((cells @ [cell]) ! j) \<noteq> Some canonical)"
        by auto
    qed
    with True show ?thesis by (auto simp: last_cell_snoc)
  next
    case False
    have "(i < Suc (length cells) \<and> cell_canonical ((cells @ [cell]) ! i) = Some canonical
      \<and> (\<forall>j. i < j \<and> j < Suc (length cells) \<longrightarrow> cell_canonical ((cells @ [cell]) ! j) \<noteq> Some canonical))
      = (i < length cells \<and> cell_canonical (cells ! i) = Some canonical
      \<and> (\<forall>j. i < j \<and> j < length cells \<longrightarrow> cell_canonical (cells ! j) \<noteq> Some canonical))"
      using False by (auto simp: nth_append less_Suc_eq)
    with False show ?thesis by (simp add: last_cell_snoc snoc.IH)
  qed
qed

lemma build_col_index_Inr:
  assumes "build_col_index header_row = Inr mapping"
  shows "mapping = build_mapping header_row"
  using assms by (simp add: build_col_index_def Let_def split: option.splits)

lemma cell_canonical_iff:
  "(cell_canonical cell = Some canonical) =
     (\<exists>k < length HEADER_KEYWORDS.
         snd (HEADER_KEYWORDS ! k) = canonical
         \<and> sublist (fst (HEADER_KEYWORDS ! k)) (lower (strip cell))
         \<and> (\<forall>k' < k. \<not> sublist (fst (HEADER_KEYWORDS ! k')) (lower (strip cell))))"
proof -
  let ?P = "\<lambda>e. sublist (fst e) (lower (strip cell))"
  have cc: "cell_canonical cell = map_option snd (find ?P HEADER_KEYWORDS)"
    by (simp add: cell_canonical_def Let_def case_prod_unfold)
  have "(cell_canonical cell = Some canonical) =
      (\<exists>e. find ?P HEADER_KEYWORDS = Some e \<and> snd e = canonical)"
    unfolding cc by auto
  also have "\<dots> = (\<exists>k < length HEADER_KEYWORDS.
         snd (HEADER_KEYWORDS ! k) = canonical \<and> ?P (HEADER_KEYWORDS ! k)
         \<and> (\<forall>k' < k. \<not> ?P (HEADER_KEYWORDS ! k')))"
    unfolding find_Some_iff by blast
  finally show ?thesis .
qed

subsection \<open>The match ignores case\<close>

lemma lower_upper_char [simp]: "lower_char (upper_char c) = lower_char c"
proof -
  have "of_char c < (256 :: nat)" by simp
  then show ?thesis
    by (auto simp: lower_char_def upper_char_def Let_def)
qed

lemma isspace_upper_char [simp]: "isspace (upper_char c) = isspace c"
  by (auto simp: isspace_def upper_char_def Let_def)

lemma strip_map:
  assumes "\<And>c. isspace (f c) = isspace c"
  shows "strip (map f s) = map f (strip s)"
proof -
  have d: "dropWhile isspace (map f xs) = map f (dropWhile isspace xs)" for xs
    by (simp add: dropWhile_map comp_def assms)
  show ?thesis
    by (simp add: strip_def rstrip_def rev_map d)
qed

lemma cell_canonical_upper: "cell_canonical (upper cell) = cell_canonical cell"
  by (simp add: cell_canonical_def upper_def lower_def strip_map comp_def)

text \<open>
  C5 as stated fails on a header with two cells for one field: the column index names
  the later cell, not the first one.
\<close>

theorem build_col_index_counterexample:
  "cell_canonical ''Credits'' = Some ''Credits''
   \<and> cell_canonical ''Max Credits'' = Some ''Credits''
   \<and> first_cell two_credit_columns ''Credits'' = Some 2
   \<and> build_col_index two_credit_columns
       = Inr [(''Course Code'', 0), (''Course Title'', 1), (''Credits'', 4), (''Instructor'', 3)]
   \<and> map_of (build_mapping two_credit_columns) ''Credits'' \<noteq> first_cell two_credit_columns ''Credits''"
  by code_simp

text \<open>
  C5, amended. Each header cell is stripped and lower-cased and matched by substring
  against the keyword table, so the match ignores case, and the first keyword of the
  table that occurs in the cell decides the cell's canonical field. A canonical field is
  mapped to the position of the last header cell that decides for it: a later matching
  cell overwrites the earlier mapping.
\<close>

theorem build_col_index_last_cell_wins:
  assumes "build_col_index header_row = Inr mapping"
  shows "map_of mapping canonical = last_cell header_row canonical
    \<and> (map_of mapping canonical = Some i) =
        (i < length header_row \<and> cell_canonical (header_row ! i) = Some canonical
         \<and> (\<forall>j. i < j \<and> j < length header_row \<longrightarrow>
               cell_canonical (header_row ! j) \<noteq> Some canonical))
    \<and> (cell_canonical cell = Some canonical) =
        (\<exists>k < length HEADER_KEYWORDS.
            snd (HEADER_KEYWORDS ! k) = canonical
            \<and> sublist (fst (HEADER_KEYWORDS ! k)) (lower (strip cell))
            \<and> (\<forall>k' < k. \<not> sublist (fst (HEADER_KEYWORDS ! k')) (lower (strip cell))))
    \<and> cell_canonical (upper cell) = cell_canonical cell"
proof -
  from assms have m: "mapping = build_mapping header_row"
    by (rule build_col_index_Inr)
  have l: "map_of mapping canonical = last_cell header_row canonical"
    unfolding m by (rule build_mapping_last_cell)
  show ?thesis
    using l last_cell_Some_iff [of header_row canonical i] cell_canonical_iff [of cell canonical]
      cell_canonical_upper [of cell]
    by simp
qed

theorem build_col_index_last_cell_wins_witness:
  "build_col_index two_credit_columns
     = Inr [(''Course Code'', 0), (''Course Title'', 1), (''Credits'', 4), (''Instructor'', 3)]
   \<and> last_cell two_credit_columns ''Credits'' = Some 4
   \<and> 4 < length two_credit_columns
   \<and> cell_canonical (two_credit_columns ! 4) = Some ''Credits''
   \<and> cell_canonical (upper ''Max Credits'') = Some ''Credits''"
proof -
  let ?m = "[(''Course Code'', 0), (''Course Title'', 1), (''Credits'', 4), (''Instructor'', 3)]"
  have b: "build_col_index two_credit_columns = Inr ?m" by code_simp
  have c: "cell_canonical ''Max Credits'' = Some ''Credits''" by code_simp
  have g: "map_of ?m ''Credits'' = Some (4 :: nat)" by simp
  from build_col_index_last_cell_wins [OF b, of "''Credits''" 4 "''Max Credits''"] g c
  have "last_cell two_credit_columns ''Credits'' = Some 4
   \<and> 4 < length two_credit_columns
   \<and> cell_canonical (two_credit_columns ! 4) = Some ''Credits''
   \<and> cell_canonical (upper ''Max Credits'') = Some ''Credits''"
    by simp
  with b show ?thesis by simp
qed

section \<open>Where the row extractor looks, and how it fails\<close>

lemma basename_no_slash: "CHR ''/'' \<notin> set (basename p)"
proof
  assume "CHR ''/'' \<in> set (basename p)"
  then have "CHR ''/'' \<in> set (takeWhile (\<lambda>c. c \<noteq> CHR ''/'') (rev p))"
    by (simp add: basename_def)
  then show False by (auto dest: set_takeWhileD)
qed

lemma basename_plain:
  assumes "CHR ''/'' \<notin> set b"
  shows "basename (d @ b) = (if d = [] \<or> last d = CHR ''/'' then b else basename d @ b)"
proof -
  have tw: "takeWhile (\<lambda>c. c \<noteq> CHR ''/'') (rev b @ ys)
      = rev b @ takeWhile (\<lambda>c. c \<noteq> CHR ''/'') ys" for ys
    using assms by (intro takeWhile_append2) auto
  show ?thesis
  proof (cases "d = []")
    case True
    have t0: "takeWhile (\<lambda>c. c \<noteq> CHR ''/'') (rev b) = rev b"
      using assms by (auto simp: takeWhile_eq_all_conv)
    show ?thesis unfolding basename_def True append_Nil t0 by simp
  next
    case False
    then obtain d' x where d: "d = d' @ [x]" by (cases d rule: rev_cases) auto
    show ?thesis
      by (simp add: basename_def d tw)
  qed
qed

lemma basename_path_join: "basename (path_join d (basename p)) = basename p"
proof -
  let ?b = "basename p"
  have n: "CHR ''/'' \<notin> set ?b" by (rule basename_no_slash)
  then have h: "(?b \<noteq> [] \<and> hd ?b = CHR ''/'') = False"
    by (cases ?b) auto
  have pj: "path_join d ?b = (if d = [] \<or> last d = CHR ''/'' then d @ ?b else (d @ ''/'') @ ?b)"
    unfolding path_join_def h by simp
  show ?thesis
  proof (cases "d = [] \<or> last d = CHR ''/''")
    case True
    then have "path_join d ?b = d @ ?b" by (simp only: pj if_True)
    with True show ?thesis by (simp only: basename_plain [OF n] if_True)
  next
    case False
    then have "path_join d ?b = (d @ ''/'') @ ?b" by (simp only: pj if_False)
    then show ?thesis by (simp only: basename_plain [OF n]) simp
  qed
qed

lemma resolve_resolve: "resolve e (resolve e p) = resolve e p"
  by (simp add: resolve_def basename_path_join)

lemma resolve_basename: "resolve e (basename p) = resolve e p"
proof -
  have "basename (basename p) = basename p"
    using basename_plain [OF basename_no_slash, of "[]" p] by simp
  then show ?thesis by (simp add: resolve_def)
qed

lemma extract_rows_basename: "extract_rows e (basename p) = extract_rows e p"
  by (simp add: extract_rows_def resolve_basename)

lemma extract_rows_resolve: "extract_rows e (resolve e p) = extract_rows e p"
  by (simp add: extract_rows_def resolve_resolve)

lemma parse_file_basename: "parse_file e (basename p) = parse_file e p"
  by (simp add: parse_file_def resolve_basename)

lemma extract_rows_not_found:
  assumes "\<not> path_exists e (resolve e p)"
  shows "extract_rows e p = Inl (FileNotFoundError (resolve e p))"
  using assms by (simp add: extract_rows_def)

lemma extract_rows_unsupported:
  assumes "path_exists e (resolve e p)"
    and "\<not> suffix ''.pdf'' (lower (resolve e p))" and "\<not> suffix ''.rtf'' (lower (resolve e p))"
  shows "extract_rows e p = Inl (ValueError (''Unsupported file format: '' @ resolve e p))"
  using assms by (simp add: extract_rows_def)

lemma parse_file_error:
  assumes "extract_rows e p = Inl err"
  shows "parse_file e p = Inl err"
  using assms by (simp add: parse_file_def extract_rows_resolve)

lemma parse_each_fold:
  "fold (\<lambda>fname data.
             if has_catalogue_extension fname
             then (case parse_file e (path_join directory fname) of
                     Inl err \<Rightarrow> data
                   | Inr d \<Rightarrow> data @ [d])
             else data)
          fnames data0
     = data0 @ List.map_filter (parsed_or_skipped e directory) fnames"
  by (induction fnames arbitrary: data0)
     (auto simp: List.map_filter_simps parsed_or_skipped_def split: sum.splits)

lemma parse_each_closed:
  "parse_each e directory fnames = List.map_filter (parsed_or_skipped e directory) fnames"
  by (simp add: parse_each_def parse_each_fold)

lemma parse_each_skip:
  assumes "parse_file e (path_join directory bad) = Inl err"
  shows "parse_each e directory (before @ [bad] @ after) = parse_each e directory (before @ after)"
  using assms
  by (simp add: parse_each_closed List.map_filter_def parsed_or_skipped_def)

lemma extract_rows_agree:
  assumes "agree_at e1 e2 (resolve e1 p)"
  shows "extract_rows e1 p = extract_rows e2 p"
proof -
  let ?q = "resolve e1 p"
  from assms have r: "resolve e2 p = ?q"
    by (simp add: agree_at_def resolve_def)
  from assms have eqs: "path_exists e2 ?q = path_exists e1 ?q"
    "pdf_table_rows e2 ?q = pdf_table_rows e1 ?q" "pdf_page_texts e2 ?q = pdf_page_texts e1 ?q"
    "rtf_available e2 = rtf_available e1" "read_text e2 ?q = read_text e1 ?q"
    "rtf_to_text e2 = rtf_to_text e1"
    by (simp_all add: agree_at_def)
  have "extract_rows e2 p = extract_rows e1 p"
    unfolding extract_rows_def r Let_def table_rows_from_pdf_def eqs by (rule refl)
  then show ?thesis by (rule sym)
qed

lemma aggregate_fold_courses:
  "fst (fold (\<lambda>d (all_courses, agg_totals).
                    (all_courses @ courses_of d,
                     fold (\<lambda>(k, v) t. add_total k v t) (totals_of d) agg_totals))
                 data (cs, ts))
     = cs @ concat (map courses_of data)"
  by (induction data arbitrary: cs ts) simp_all

lemma aggregate_courses: "courses_of (aggregate data) = concat (map courses_of data)"
  using aggregate_fold_courses [of data "[]" "[]"]
  by (simp add: aggregate_def case_prod_unfold)

text \<open>
  C6. Whatever path the caller gives, the extractor uses its basename only, a name
  without a slash, joined to the data directory: the directory part of the caller's
  path has no effect, and the result depends on nothing but the file at the resolved
  path. When no file is at the resolved path the result is the not-found error; when
  one is there and its name ends neither in \<open>.pdf\<close> nor in \<open>.rtf\<close> the result is the
  unsupported-format error; \<open>parse_file\<close> passes both on. A directory parse whose
  listing succeeds always returns: its courses are those of the listed files that
  parse, in order, and a file whose parse fails is skipped as if it were not listed.
\<close>

theorem extract_rows_confined_and_failing:
  "resolve e path = path_join (DATA_DIR e) (basename path)
   \<and> CHR ''/'' \<notin> set (basename path)
   \<and> extract_rows e path = extract_rows e (basename path)
   \<and> parse_file e path = parse_file e (basename path)
   \<and> (agree_at e e' (resolve e path) \<longrightarrow> extract_rows e path = extract_rows e' path)
   \<and> (\<not> path_exists e (resolve e path) \<longrightarrow>
         extract_rows e path = Inl (FileNotFoundError (resolve e path))
         \<and> parse_file e path = Inl (FileNotFoundError (resolve e path)))
   \<and> (path_exists e (resolve e path) \<and> \<not> suffix ''.pdf'' (lower (resolve e path))
        \<and> \<not> suffix ''.rtf'' (lower (resolve e path)) \<longrightarrow>
         extract_rows e path = Inl (ValueError (''Unsupported file format: '' @ resolve e path))
         \<and> parse_file e path = Inl (ValueError (''Unsupported file format: '' @ resolve e path)))
   \<and> (listdir e (directory_or_default e given) = Inr fnames \<longrightarrow>
         (\<exists>res. parse_directory e given = Inr res
            \<and> res = aggregate
                  (List.map_filter (parsed_or_skipped e (directory_or_default e given)) fnames)
            \<and> courses_of res =
                concat (map courses_of
                  (List.map_filter (parsed_or_skipped e (directory_or_default e given)) fnames))))
   \<and> (parse_file e (path_join directory bad) = Inl err \<longrightarrow>
         parse_each e directory (before @ [bad] @ after) = parse_each e directory (before @ after))"
proof -
  have nf: "extract_rows e path = Inl (FileNotFoundError (resolve e path))
         \<and> parse_file e path = Inl (FileNotFoundError (resolve e path))"
    if "\<not> path_exists e (resolve e path)"
    using extract_rows_not_found [OF that] by (simp add: parse_file_error)
  have un: "extract_rows e path = Inl (ValueError (''Unsupported file format: '' @ resolve e path))
         \<and> parse_file e path = Inl (ValueError (''Unsupported file format: '' @ resolve e path))"
    if "path_exists e (resolve e path)" "\<not> suffix ''.pdf'' (lower (resolve e path))"
      "\<not> suffix ''.rtf'' (lower (resolve e path))"
    using extract_rows_unsupported [OF that] by (simp add: parse_file_error)
  have dir: "\<exists>res. parse_directory e given = Inr res
            \<and> res = aggregate
                  (List.map_filter (parsed_or_skipped e (directory_or_default e given)) fnames)
            \<and> courses_of res =
                concat (map courses_of
                  (List.map_filter (parsed_or_skipped e (directory_or_default e given)) fnames))"
    if "listdir e (directory_or_default e given) = Inr fnames"
    using that by (simp add: parse_directory_def parse_each_closed aggregate_courses)
  show ?thesis
    using nf un dir
    by (simp add: resolve_def basename_no_slash extract_rows_basename parse_file_basename
        extract_rows_agree parse_each_skip del: append.simps)
qed

theorem extract_rows_confined_and_failing_witness:
  "path_exists outside_env ''/etc/passwd.pdf''
   \<and> agree_at sample_env outside_env (resolve sample_env ''/etc/passwd.pdf'')
   \<and> \<not> path_exists sample_env (resolve sample_env ''/etc/passwd.pdf'')
   \<and> extract_rows sample_env ''/etc/passwd.pdf'' = Inl (FileNotFoundError ''./_context/passwd.pdf'')
   \<and> extract_rows outside_env ''/etc/passwd.pdf'' = Inl (FileNotFoundError ''./_context/passwd.pdf'')
   \<and> path_exists sample_env (resolve sample_env ''/tmp/notes.txt'')
   \<and> extract_rows sample_env ''/tmp/notes.txt''
       = Inl (ValueError ''Unsupported file format: ./_context/notes.txt'')
   \<and> listdir sample_env (directory_or_default sample_env None)
       = Inr [''bad.pdf'', ''notes.txt'', ''good.pdf'']
   \<and> parse_file sample_env (path_join ''./_context'' ''bad.pdf'')
       = Inl (RuntimeError ''Header row with Course Code not found.'')
   \<and> parse_each sample_env ''./_context'' ([] @ [''bad.pdf''] @ [''notes.txt'', ''good.pdf''])
       = parse_each sample_env ''./_context'' ([] @ [''notes.txt'', ''good.pdf''])
   \<and> parse_directory sample_env None
       = Inr \<lparr>courses_of =
                 [(mk_scraped ''BIBL 101'' ''Intro to Biblical Studies'' 3)
                    \<lparr>fields_d := [''Bible/Sacred Texts'']\<rparr>],
               totals_of = [(''Bible/Sacred Texts'', 3)]\<rparr>"
proof -
  let ?bad = "RuntimeError ''Header row with Course Code not found.''"
  let ?names = "[''bad.pdf'', ''notes.txt'', ''good.pdf'']"
  note claim = extract_rows_confined_and_failing
  have r1: "resolve sample_env ''/etc/passwd.pdf'' = ''./_context/passwd.pdf''" by code_simp
  have r2: "resolve sample_env ''/tmp/notes.txt'' = ''./_context/notes.txt''" by code_simp
  have o: "path_exists outside_env ''/etc/passwd.pdf''" by code_simp
  have h0: "agree_at sample_env outside_env (resolve sample_env ''/etc/passwd.pdf'')"
    unfolding r1 by (simp add: agree_at_def outside_env_def)
  have h1: "\<not> path_exists sample_env (resolve sample_env ''/etc/passwd.pdf'')" by code_simp
  have h2: "path_exists sample_env (resolve sample_env ''/tmp/notes.txt'')
      \<and> \<not> suffix ''.pdf'' (lower (resolve sample_env ''/tmp/notes.txt''))
      \<and> \<not> suffix ''.rtf'' (lower (resolve sample_env ''/tmp/notes.txt''))" by code_simp
  have h3: "listdir sample_env (directory_or_default sample_env None) = Inr ?names"
    by code_simp
  have h4: "parse_file sample_env (path_join ''./_context'' ''bad.pdf'') = Inl ?bad" by code_simp
  have a0: "extract_rows sample_env ''/etc/passwd.pdf''
       = Inl (FileNotFoundError (resolve sample_env ''/etc/passwd.pdf''))"
    and s0: "extract_rows sample_env ''/etc/passwd.pdf'' = extract_rows outside_env ''/etc/passwd.pdf''"
    using claim [where e = sample_env and path = "''/etc/passwd.pdf''" and e' = outside_env] h0 h1
    by blast+
  have a: "extract_rows sample_env ''/etc/passwd.pdf'' = Inl (FileNotFoundError ''./_context/passwd.pdf'')"
    using a0 by (simp only: r1)
  have a': "extract_rows outside_env ''/etc/passwd.pdf'' = Inl (FileNotFoundError ''./_context/passwd.pdf'')"
    using a s0 by simp
  have b0: "extract_rows sample_env ''/tmp/notes.txt''
       = Inl (ValueError (''Unsupported file format: '' @ resolve sample_env ''/tmp/notes.txt''))"
    using claim [where e = sample_env and path = "''/tmp/notes.txt''"] h2
    by blast
  have b: "extract_rows sample_env ''/tmp/notes.txt''
       = Inl (ValueError ''Unsupported file format: ./_context/notes.txt'')"
    using b0 by (simp only: r2) simp
  have c: "parse_each sample_env ''./_context'' ([] @ [''bad.pdf''] @ [''notes.txt'', ''good.pdf''])
       = parse_each sample_env ''./_context'' ([] @ [''notes.txt'', ''good.pdf''])"
    using claim [where e = sample_env and directory = "''./_context''" and bad = "''bad.pdf''"
        and err = ?bad and before = "[]" and after = "[''notes.txt'', ''good.pdf'']"] h4
    by blast
  have d0: "\<exists>res. parse_directory sample_env None = Inr res
      \<and> res = aggregate (List.map_filter
            (parsed_or_skipped sample_env (directory_or_default sample_env None)) ?names)"
    using claim [where e = sample_env and given = None and fnames = ?names] h3
    by blast
  have d1: "aggregate (List.map_filter
        (parsed_or_skipped sample_env (directory_or_default sample_env None)) ?names)
      = \<lparr>courses_of =
                 [(mk_scraped ''BIBL 101'' ''Intro to Biblical Studies'' 3)
                    \<lparr>fields_d := [''Bible/Sacred Texts'']\<rparr>],
               totals_of = [(''Bible/Sacred Texts'', 3)]\<rparr>" by code_simp
  have d: "parse_directory sample_env None
       = Inr \<lparr>courses_of =
                 [(mk_scraped ''BIBL 101'' ''Intro to Biblical Studies'' 3)
                    \<lparr>fields_d := [''Bible/Sacred Texts'']\<rparr>],
               totals_of = [(''Bible/Sacred Texts'', 3)]\<rparr>"
    using d0 d1 by auto
  from o h0 h1 a a' h2 b h3 h4 c d show ?thesis by blast
qed

end
